theory Spec2Isabelle
  imports Complex_Main "HOL-Library.AList"
begin

chapter \<open>The programs\<close>

section \<open>Python strings and integers\<close>

text \<open>
  Strings are HOL strings (lists of 8-bit characters); the character classes below are
  the ASCII part of Python's \<open>str.isspace\<close>, \<open>str.isdigit\<close> and \<open>str.isalnum\<close>.
\<close>

definition isspace :: "char \<Rightarrow> bool" where
  "isspace c = (let n = (of_char c :: nat) in (9 \<le> n \<and> n \<le> 13) \<or> (28 \<le> n \<and> n \<le> 32))"

definition isdigit :: "char \<Rightarrow> bool" where
  "isdigit c = (let n = (of_char c :: nat) in 48 \<le> n \<and> n \<le> 57)"

definition isalpha :: "char \<Rightarrow> bool" where
  "isalpha c = (let n = (of_char c :: nat) in (65 \<le> n \<and> n \<le> 90) \<or> (97 \<le> n \<and> n \<le> 122))"

definition isalnum :: "char \<Rightarrow> bool" where
  "isalnum c = (isalpha c \<or> isdigit c)"

definition digit_val :: "char \<Rightarrow> nat" where
  "digit_val c = of_char c - 48"

definition digit_char :: "nat \<Rightarrow> char" where
  "digit_char d = ''0123456789'' ! d"

text \<open>\<open>s.strip()\<close>: whitespace removed at both ends.\<close>

definition strip :: "string \<Rightarrow> string" where
  "strip s = rev (dropWhile isspace (rev (dropWhile isspace s)))"

text \<open>\<open>s.startswith(p)\<close>.\<close>

definition startswith :: "string \<Rightarrow> string \<Rightarrow> bool" where
  "startswith s p = (take (length p) s = p)"

text \<open>\<open>s.split()\<close> with no argument: the maximal runs of non-whitespace characters.\<close>

fun split_from :: "string \<Rightarrow> string \<Rightarrow> string list" where
  "split_from w [] = (if w = [] then [] else [w])"
| "split_from w (c # cs) =
     (if isspace c then (if w = [] then split_from [] cs else w # split_from [] cs)
      else split_from (w @ [c]) cs)"

definition split :: "string \<Rightarrow> string list" where
  "split s = split_from [] s"

text \<open>
  \<open>int(s)\<close> in base ten on a token without whitespace: an optional sign, then ASCII
  decimal digits in which single underscores may separate digits. \<open>None\<close> is Python's
  \<open>ValueError\<close>.
\<close>

fun parse_digits :: "nat \<Rightarrow> bool \<Rightarrow> string \<Rightarrow> nat option" where
  "parse_digits acc prev [] = (if prev then Some acc else None)"
| "parse_digits acc prev (c # cs) =
     (if isdigit c then parse_digits (10 * acc + digit_val c) True cs
      else if c = CHR ''_'' \<and> prev then parse_digits acc False cs
      else None)"

definition py_int :: "string \<Rightarrow> int option" where
  "py_int s =
     (case s of
        [] \<Rightarrow> None
      | c # cs \<Rightarrow>
          if c = CHR ''-'' then map_option (\<lambda>n. - int n) (parse_digits 0 False cs)
          else if c = CHR ''+'' then map_option int (parse_digits 0 False cs)
          else map_option int (parse_digits 0 False s))"

text \<open>\<open>str(n)\<close> for a natural number and for an integer.\<close>

fun str_nat :: "nat \<Rightarrow> string" where
  "str_nat n = (if n < 10 then [digit_char n] else str_nat (n div 10) @ [digit_char (n mod 10)])"

declare str_nat.simps [simp del]

definition str_int :: "int \<Rightarrow> string" where
  "str_int i = (if i < 0 then CHR ''-'' # str_nat (nat (- i)) else str_nat (nat i))"

text \<open>\<open>xs.pop(i)\<close>: the element and the remaining list; \<open>None\<close> is \<open>IndexError\<close>.\<close>

definition pop :: "'a list \<Rightarrow> int \<Rightarrow> ('a \<times> 'a list) option" where
  "pop xs i =
     (let n = int (length xs); j = (if i < 0 then i + n else i)
      in if 0 \<le> j \<and> j < n then Some (xs ! nat j, take (nat j) xs @ drop (Suc (nat j)) xs)
         else None)"

section \<open>The selection list\<close>

text \<open>
  There are two selectors with the same state: the menu selector
  (\<open>interactive_album_selector.py\<close>, class \<open>InteractiveAlbumSelector\<close>) and the
  terminal-UI selector (\<open>tui_album_selector.py\<close>, class \<open>TUIAlbumSelector\<close>). Where
  their code differs, the function of the terminal-UI selector carries the suffix
  \<open>_tui\<close>. What a function prints is returned as a list of messages.
\<close>

text \<open>A Python value held in a dictionary or attribute: \<open>None\<close>, an integer or a string.\<close>

datatype pyval = PNone | PInt int | PStr string

fun truthy :: "pyval \<Rightarrow> bool" where
  "truthy PNone = False"
| "truthy (PInt i) = (i \<noteq> 0)"
| "truthy (PStr s) = (s \<noteq> [])"

fun str_val :: "pyval \<Rightarrow> string" where
  "str_val PNone = ''None''"
| "str_val (PInt i) = str_int i"
| "str_val (PStr s) = s"

text \<open>
  Modelled from the spec: the album metadata record (\<open>AlbumInfo\<close> of the catalog
  library's \<open>utils/models.py\<close>, which is not among the sources). It has the album name,
  the artist and the release year that the selectors format; its other instance
  attributes, among them the ``several possible metadata attributes'' that may hold an
  identifier (\<open>album_id\<close>, \<open>id\<close>, ...), are a table, so that \<open>hasattr\<close> is a lookup.
\<close>

record album_info =
  name :: string
  artist :: string
  release_year :: int
  attrs :: "(string \<times> pyval) list"

text \<open>
  The dictionary stored per selected album. Records added from a search carry
  \<open>album_info\<close>; records loaded from a file carry \<open>url\<close>.
\<close>

record selected_album =
  sel_artist :: string
  sel_album :: string
  sel_year :: pyval
  sel_module :: string
  sel_album_info :: "album_info option"
  sel_url :: "string option"

record selector =
  selected_albums :: "selected_album list"
  album_urls :: "string list"

datatype msg =
    Invalid_album_number string
  | Removed string string
  | Removed_count nat
  | Remaining_albums nat
  | Invalid_format
  | All_albums_removed
  | Invalid_command
  | No_albums_selected
  | Selected_albums nat
  | Warning_no_url string
  | Adding nat string
  | Added string int
  | Total_selected nat
  | File_not_found string
  | Error_loading
  | Loaded nat
  | Total_now nat

subsection \<open>Removal in the menu selector (\<open>show_selected_albums\<close>)\<close>

text \<open>Source: \<open>interactive_album_selector.py\<close>, lines 283 to 334.\<close>

text \<open>
  The first loop of the \<open>remove\<close> branch: every token is converted; a token in range
  is collected, a token out of range is reported and the loop goes on. \<open>None\<close> in the
  first component is the \<open>ValueError\<close> of \<open>int\<close>.
\<close>

fun collect_indices ::
  "nat \<Rightarrow> string list \<Rightarrow> int list \<Rightarrow> msg list \<Rightarrow> int list option \<times> msg list" where
  "collect_indices n [] idxs out = (Some idxs, out)"
| "collect_indices n (num # nums) idxs out =
     (case py_int num of
        None \<Rightarrow> (None, out)
      | Some v \<Rightarrow>
          (let idx = v - 1
           in if 0 \<le> idx \<and> idx < int n then collect_indices n nums (idxs @ [idx]) out
              else collect_indices n nums idxs (out @ [Invalid_album_number num])))"

text \<open>
  The second loop pops each index from both lists. The flag is \<open>False\<close> when a
  \<open>pop\<close> raised \<open>IndexError\<close>; the state is then the one reached at the raise.
\<close>

fun remove_loop :: "int list \<Rightarrow> selector \<Rightarrow> msg list \<Rightarrow> bool \<times> selector \<times> msg list" where
  "remove_loop [] st out = (True, st, out)"
| "remove_loop (idx # idxs) st out =
     (case pop (selected_albums st) idx of
        None \<Rightarrow> (False, st, out)
      | Some (removed, sa) \<Rightarrow>
          (case pop (album_urls st) idx of
             None \<Rightarrow> (False, st\<lparr>selected_albums := sa\<rparr>, out)
           | Some (u, au) \<Rightarrow>
               remove_loop idxs (st\<lparr>selected_albums := sa, album_urls := au\<rparr>)
                 (out @ [Removed (sel_artist removed) (sel_album removed)])))"

text \<open>
  One \<open>remove\<close> command of the menu selector. The flag says whether the command loop
  ends (\<open>break\<close>); after an exception it prompts again.
\<close>

definition remove_command :: "string \<Rightarrow> selector \<Rightarrow> bool \<times> selector \<times> msg list" where
  "remove_command choice st =
     (let numbers = tl (split choice)
      in case collect_indices (length (selected_albums st)) numbers [] [] of
           (None, out) \<Rightarrow> (False, st, out @ [Invalid_format])
         | (Some idxs, out) \<Rightarrow>
             (case remove_loop (rev (sort idxs)) st out of
                (False, st', out') \<Rightarrow> (False, st', out' @ [Invalid_format])
              | (True, st', out') \<Rightarrow>
                  (True, st', out' @ [Remaining_albums (length (selected_albums st'))])))"

text \<open>One command of the loop of \<open>show_selected_albums\<close>, already stripped and lowered.\<close>

definition show_selected_command :: "string \<Rightarrow> selector \<Rightarrow> bool \<times> selector \<times> msg list" where
  "show_selected_command choice st =
     (if choice = ''back'' then (True, st, [])
      else if choice = ''clear'' then
        (True, st\<lparr>selected_albums := [], album_urls := []\<rparr>, [All_albums_removed])
      else if startswith choice ''remove '' then remove_command choice st
      else (False, st, [Invalid_command]))"

text \<open>
  \<open>show_selected_albums\<close> as a whole: nothing happens when the selection is empty;
  otherwise the list is shown and the answers typed at the prompt are processed, each
  stripped and lowered, until a command ends the loop. When the answers run out the
  state reached is returned.
\<close>

definition lower :: "string \<Rightarrow> string" where
  "lower s =
     map (\<lambda>c. let n = (of_char c :: nat)
              in if 65 \<le> n \<and> n \<le> 90 then ''abcdefghijklmnopqrstuvwxyz'' ! (n - 65) else c) s"

fun command_loop :: "string list \<Rightarrow> selector \<Rightarrow> msg list \<Rightarrow> selector \<times> msg list" where
  "command_loop [] st out = (st, out)"
| "command_loop (answer # answers) st out =
     (case show_selected_command (lower (strip answer)) st of
        (True, st', out') \<Rightarrow> (st', out @ out')
      | (False, st', out') \<Rightarrow> command_loop answers st' (out @ out'))"

definition show_selected_albums :: "string list \<Rightarrow> selector \<Rightarrow> selector \<times> msg list" where
  "show_selected_albums answers st =
     (if selected_albums st = [] then (st, [No_albums_selected])
      else command_loop answers st [Selected_albums (length (selected_albums st))])"

subsection \<open>Removal in the terminal-UI selector (\<open>_remove_albums\<close>)\<close>

text \<open>Source: \<open>tui_album_selector.py\<close>, lines 552 to 577.\<close>

datatype scan = Scan_ValueError | Scan_Invalid string | Scan_Ok "int list"

text \<open>The first loop returns from the function at the first token out of range.\<close>

fun collect_indices_tui :: "nat \<Rightarrow> string list \<Rightarrow> int list \<Rightarrow> scan" where
  "collect_indices_tui n [] idxs = Scan_Ok idxs"
| "collect_indices_tui n (num # nums) idxs =
     (case py_int num of
        None \<Rightarrow> Scan_ValueError
      | Some v \<Rightarrow>
          (let idx = v - 1
           in if 0 \<le> idx \<and> idx < int n then collect_indices_tui n nums (idxs @ [idx])
              else Scan_Invalid num))"

fun remove_loop_tui :: "int list \<Rightarrow> selector \<Rightarrow> nat \<Rightarrow> bool \<times> selector \<times> nat" where
  "remove_loop_tui [] st removed_count = (True, st, removed_count)"
| "remove_loop_tui (idx # idxs) st removed_count =
     (case pop (selected_albums st) idx of
        None \<Rightarrow> (False, st, removed_count)
      | Some (removed, sa) \<Rightarrow>
          (case pop (album_urls st) idx of
             None \<Rightarrow> (False, st\<lparr>selected_albums := sa\<rparr>, removed_count)
           | Some (u, au) \<Rightarrow>
               remove_loop_tui idxs (st\<lparr>selected_albums := sa, album_urls := au\<rparr>)
                 (removed_count + 1)))"

definition remove_albums_tui :: "string \<Rightarrow> selector \<Rightarrow> selector \<times> msg list" where
  "remove_albums_tui command st =
     (let numbers = tl (split command)
      in case collect_indices_tui (length (selected_albums st)) numbers [] of
           Scan_ValueError \<Rightarrow> (st, [Invalid_format])
         | Scan_Invalid num \<Rightarrow> (st, [Invalid_album_number num])
         | Scan_Ok idxs \<Rightarrow>
             (case remove_loop_tui (rev (sort idxs)) st 0 of
                (False, st', c) \<Rightarrow> (st', [Invalid_format])
              | (True, st', c) \<Rightarrow>
                  (st', [Removed_count c, Remaining_albums (length (selected_albums st'))])))"

text \<open>Two selected albums, used in the concrete evaluations below.\<close>

definition album_a :: selected_album where
  "album_a = \<lparr>sel_artist = ''Artist'', sel_album = ''First'', sel_year = PInt 1999,
     sel_module = ''qobuz'', sel_album_info = None, sel_url = None\<rparr>"

definition album_b :: selected_album where
  "album_b = \<lparr>sel_artist = ''Artist'', sel_album = ''Second'', sel_year = PInt 2004,
     sel_module = ''qobuz'', sel_album_info = None, sel_url = None\<rparr>"

definition two_albums :: selector where
  "two_albums = \<lparr>selected_albums = [album_a, album_b],
     album_urls = [''https://play.qobuz.com/album/1'', ''https://play.qobuz.com/album/2'']\<rparr>"

definition three_albums :: selector where
  "three_albums = \<lparr>selected_albums = [album_a, album_b, album_a],
     album_urls = [''u1'', ''u2'', ''u3'']\<rparr>"

text \<open>
  A token is out of range when it converts to an integer that is not a 1-based position
  of the list, and in range when it is one.
\<close>

definition out_of_range :: "nat \<Rightarrow> string \<Rightarrow> bool" where
  "out_of_range n num = (case py_int num of None \<Rightarrow> False | Some v \<Rightarrow> v < 1 \<or> int n < v)"

definition in_range :: "nat \<Rightarrow> string \<Rightarrow> bool" where
  "in_range n num = (case py_int num of None \<Rightarrow> False | Some v \<Rightarrow> 1 \<le> v \<and> v \<le> int n)"

fun is_invalid_report :: "msg \<Rightarrow> bool" where
  "is_invalid_report (Invalid_album_number t) = True"
| "is_invalid_report m = False"

section \<open>Album URL reconstruction\<close>

text \<open>
  Source: \<open>generate_album_url\<close> in \<open>interactive_album_selector.py\<close> (lines 199 to 256)
  and in \<open>tui_album_selector.py\<close> (lines 408 to 449).

  Modelled from the spec: the service's declared URL-route table and the constant from
  which its domain is looked up (\<open>ModuleInformation\<close> and \<open>DownloadTypeEnum\<close> of the
  catalog library's \<open>utils/models.py\<close>, which is not among the sources). The module
  table \<open>orpheus.module_settings\<close> is a parameter of the functions below; of a module's
  information they read \<open>url_constants\<close> (a dictionary from path segments to download
  types, or \<open>None\<close>) and \<open>netlocation_constant\<close> (a string or a list of strings).
\<close>

datatype download_type = Track | Playlist | Artist | Album

datatype netloc = Netloc_str string | Netloc_list "string list"

record module_information =
  url_constants :: "(string \<times> download_type) list option"
  netlocation_constant :: netloc

type_synonym module_settings = "(string \<times> module_information) list"

datatype py_error = KeyError | IndexError

definition domain_mapping :: "(string \<times> string) list" where
  "domain_mapping =
     [(''qobuz'', ''play.qobuz.com''),
      (''tidal'', ''tidal.com''),
      (''spotify'', ''open.spotify.com''),
      (''deezer'', ''deezer.com''),
      (''apple'', ''music.apple.com'')]"

text \<open>The domain and the album path: the part of the \<open>try\<close> block that can raise.\<close>

definition first_netloc :: "netloc \<Rightarrow> py_error + string" where
  "first_netloc c =
     (case c of
        Netloc_str n \<Rightarrow> Inr n
      | Netloc_list [] \<Rightarrow> Inl IndexError
      | Netloc_list (n # ns) \<Rightarrow> Inr n)"

definition album_path_of :: "(string \<times> download_type) list option \<Rightarrow> string" where
  "album_path_of url_consts =
     (case url_consts of
        None \<Rightarrow> ''album''
      | Some cs \<Rightarrow>
          if cs = [] then ''album''
          else (case find (\<lambda>(path, download_type). download_type = Album) cs of
                  None \<Rightarrow> ''album''
                | Some (path, download_type) \<Rightarrow> path))"

definition url_base :: "module_settings \<Rightarrow> string \<Rightarrow> py_error + string" where
  "url_base settings module_name =
     (case map_of settings module_name of
        None \<Rightarrow> Inl KeyError
      | Some ms \<Rightarrow>
          (case first_netloc (netlocation_constant ms) of
             Inl e \<Rightarrow> Inl e
           | Inr netloc_constant \<Rightarrow>
               (let domain = (case map_of domain_mapping netloc_constant of
                                Some d \<Rightarrow> d
                              | None \<Rightarrow> netloc_constant @ ''.com'');
                    album_path = album_path_of (url_constants ms)
                in Inr (''https://'' @ domain @ ''/'' @ album_path @ ''/''))))"

text \<open>
  The album identifier. The menu selector tries the attribute \<open>album_id\<close> (when
  truthy), then \<open>id\<close>, then the keys \<open>album_id\<close>, \<open>id\<close>, \<open>albumId\<close>, \<open>albumID\<close>
  of \<open>__dict__\<close>; the terminal-UI selector tries the first two only. \<open>PNone\<close> is
  Python's \<open>None\<close>.
\<close>

fun probe_dict :: "(string \<times> pyval) list \<Rightarrow> string list \<Rightarrow> pyval" where
  "probe_dict d [] = PNone"
| "probe_dict d (attr_name # rest) =
     (case map_of d attr_name of
        Some v \<Rightarrow> if truthy v then v else probe_dict d rest
      | None \<Rightarrow> probe_dict d rest)"

definition stored_album_id :: "album_info \<Rightarrow> pyval option" where
  "stored_album_id a =
     (case map_of (attrs a) ''album_id'' of
        Some v \<Rightarrow> if truthy v then Some v else None
      | None \<Rightarrow> None)"

definition album_id_of :: "album_info \<Rightarrow> pyval" where
  "album_id_of a =
     (case stored_album_id a of
        Some v \<Rightarrow> v
      | None \<Rightarrow>
          (case map_of (attrs a) ''id'' of
             Some v \<Rightarrow> v
           | None \<Rightarrow> probe_dict (attrs a) [''album_id'', ''id'', ''albumId'', ''albumID'']))"

definition album_id_of_tui :: "album_info \<Rightarrow> pyval" where
  "album_id_of_tui a =
     (case stored_album_id a of
        Some v \<Rightarrow> v
      | None \<Rightarrow> (case map_of (attrs a) ''id'' of Some v \<Rightarrow> v | None \<Rightarrow> PNone))"

text \<open>
  The fallback identifier \<open>str(abs(hash(f"{name}_{artist}_{release_year}")))[:10]\<close>.
  Python's \<open>hash\<close> of a string depends on the process (it is seeded at start-up), so
  the hash function of the running process is the parameter \<open>hash\<close>.
\<close>

definition hash_key :: "album_info \<Rightarrow> string" where
  "hash_key a = name a @ ''_'' @ artist a @ ''_'' @ str_int (release_year a)"

definition pseudo_id :: "(string \<Rightarrow> int) \<Rightarrow> album_info \<Rightarrow> string" where
  "pseudo_id hash a = take 10 (str_int (abs (hash (hash_key a))))"

definition id_text :: "(string \<Rightarrow> int) \<Rightarrow> pyval \<Rightarrow> album_info \<Rightarrow> string" where
  "id_text hash album_id a = (if \<not> truthy album_id then pseudo_id hash a else str_val album_id)"

text \<open>The comment line of the \<open>except\<close> branch.\<close>

definition safe_name :: "string \<Rightarrow> string" where
  "safe_name n = strip (filter (\<lambda>c. isalnum c \<or> c \<in> {CHR '' '', CHR ''-'', CHR ''_''}) n)"

definition fallback_comment :: "album_info \<Rightarrow> string" where
  "fallback_comment a =
     ''# '' @ safe_name (name a) @ '' ('' @ str_int (release_year a) @ '') - '' @ artist a"

text \<open>
  \<open>generate_album_url\<close> of the menu selector returns the line and what it printed;
  the one of the terminal-UI selector prints nothing.
\<close>

definition generate_album_url ::
  "(string \<Rightarrow> int) \<Rightarrow> module_settings \<Rightarrow> string \<Rightarrow> album_info \<Rightarrow> string \<times> msg list" where
  "generate_album_url hash settings module_name a =
     (case url_base settings module_name of
        Inr base \<Rightarrow> (base @ id_text hash (album_id_of a) a, [])
      | Inl e \<Rightarrow> (fallback_comment a, [Warning_no_url (name a)]))"

definition generate_album_url_tui ::
  "(string \<Rightarrow> int) \<Rightarrow> module_settings \<Rightarrow> string \<Rightarrow> album_info \<Rightarrow> string" where
  "generate_album_url_tui hash settings module_name a =
     (case url_base settings module_name of
        Inr base \<Rightarrow> base @ id_text hash (album_id_of_tui a) a
      | Inl e \<Rightarrow> fallback_comment a)"

text \<open>A module table and two albums for the concrete evaluations.\<close>

definition qobuz_modules :: module_settings where
  "qobuz_modules =
     [(''qobuz'', \<lparr>url_constants = Some [(''track'', Track), (''album'', Album)],
                   netlocation_constant = Netloc_str ''qobuz''\<rparr>)]"

definition back_in_black :: album_info where
  "back_in_black = \<lparr>name = ''Back in Black!'', artist = ''AC/DC'', release_year = 1980,
     attrs = []\<rparr>"

definition back_in_black_remaster :: album_info where
  "back_in_black_remaster = \<lparr>name = ''Back in Black!'', artist = ''AC/DC'', release_year = 1980,
     attrs = [(''album_id'', PStr ''''), (''quality'', PStr ''HiRes'')]\<rparr>"

section \<open>Adding, clearing and loading\<close>

text \<open>
  Source: \<open>add_selected_albums\<close> (menu selector lines 258 to 281, terminal-UI selector
  lines 451 to 482) and \<open>load_existing_file\<close> (lines 464 to 506 and 687 to 741).
\<close>

definition new_selection :: "string \<Rightarrow> string \<Rightarrow> album_info \<Rightarrow> selected_album" where
  "new_selection module_name artist_name a =
     \<lparr>sel_artist = artist_name, sel_album = name a, sel_year = PInt (release_year a),
      sel_module = module_name, sel_album_info = Some a, sel_url = None\<rparr>"

fun add_loop ::
  "(string \<Rightarrow> int) \<Rightarrow> module_settings \<Rightarrow> string \<Rightarrow> string \<Rightarrow> album_info list \<Rightarrow>
   selector \<Rightarrow> msg list \<Rightarrow> selector \<times> msg list" where
  "add_loop hash settings module_name artist_name [] st out = (st, out)"
| "add_loop hash settings module_name artist_name (a # albums) st out =
     (let st1 = st\<lparr>selected_albums :=
                     selected_albums st @ [new_selection module_name artist_name a]\<rparr>;
          (url, warn) = generate_album_url hash settings module_name a;
          st2 = st1\<lparr>album_urls := album_urls st1 @ [url]\<rparr>
      in add_loop hash settings module_name artist_name albums st2
           (out @ warn @ [Added (name a) (release_year a)]))"

definition add_selected_albums ::
  "(string \<Rightarrow> int) \<Rightarrow> module_settings \<Rightarrow> string \<Rightarrow> album_info list \<Rightarrow> string \<Rightarrow>
   selector \<Rightarrow> selector \<times> msg list" where
  "add_selected_albums hash settings module_name albums artist_name st =
     (if albums = [] then (st, [])
      else (let (st', out) =
                  add_loop hash settings module_name artist_name albums st
                    [Adding (length albums) artist_name]
            in (st', out @ [Total_selected (length (selected_albums st'))])))"

fun add_loop_tui ::
  "(string \<Rightarrow> int) \<Rightarrow> module_settings \<Rightarrow> string \<Rightarrow> string \<Rightarrow> album_info list \<Rightarrow>
   selector \<Rightarrow> selector" where
  "add_loop_tui hash settings module_name artist_name [] st = st"
| "add_loop_tui hash settings module_name artist_name (a # albums) st =
     (let st1 = st\<lparr>selected_albums :=
                     selected_albums st @ [new_selection module_name artist_name a]\<rparr>;
          url = generate_album_url_tui hash settings module_name a;
          st2 = st1\<lparr>album_urls := album_urls st1 @ [url]\<rparr>
      in add_loop_tui hash settings module_name artist_name albums st2)"

definition add_selected_albums_tui ::
  "(string \<Rightarrow> int) \<Rightarrow> module_settings \<Rightarrow> string \<Rightarrow> album_info list \<Rightarrow> string \<Rightarrow>
   selector \<Rightarrow> selector \<times> msg list" where
  "add_selected_albums_tui hash settings module_name albums artist_name st =
     (if albums = [] then (st, [])
      else (let st' = add_loop_tui hash settings module_name artist_name albums st
            in (st', [Adding (length albums) artist_name,
                      Total_selected (length (selected_albums st'))])))"

text \<open>
  Loading a links file. The file system is the table \<open>files\<close>: a name is absent, or
  cannot be read, or holds the lines \<open>readlines\<close> returns. \<open>urlparse\<close> of the standard
  library raises \<open>ValueError\<close> on some lines; which ones is the parameter
  \<open>urlparse_raises\<close>.
\<close>

datatype file_content = Unreadable | Lines "string list"

definition unknown_album :: "string \<Rightarrow> selected_album" where
  "unknown_album line =
     \<lparr>sel_artist = ''Unknown'', sel_album = ''Unknown'', sel_year = PStr ''Unknown'',
      sel_module = ''Unknown'', sel_album_info = None, sel_url = Some line\<rparr>"

definition is_url_line :: "string \<Rightarrow> bool" where
  "is_url_line line = (line \<noteq> [] \<and> \<not> startswith line ''#'' \<and> startswith line ''http'')"

text \<open>
  The menu selector appends the line to \<open>album_urls\<close> first and then, inside
  \<open>try: ... except: pass\<close>, parses it and appends the record.
\<close>

fun load_loop :: "(string \<Rightarrow> bool) \<Rightarrow> string list \<Rightarrow> selector \<Rightarrow> nat \<Rightarrow> selector \<times> nat" where
  "load_loop urlparse_raises [] st loaded_count = (st, loaded_count)"
| "load_loop urlparse_raises (l # ls) st loaded_count =
     (let line = strip l
      in if is_url_line line then
           if line \<notin> set (album_urls st) then
             (let st1 = st\<lparr>album_urls := album_urls st @ [line]\<rparr>
              in if urlparse_raises line then load_loop urlparse_raises ls st1 loaded_count
                 else load_loop urlparse_raises ls
                        (st1\<lparr>selected_albums := selected_albums st1 @ [unknown_album line]\<rparr>)
                        (loaded_count + 1))
           else load_loop urlparse_raises ls st loaded_count
         else load_loop urlparse_raises ls st loaded_count)"

fun load_loop_tui :: "string list \<Rightarrow> selector \<Rightarrow> nat \<Rightarrow> selector \<times> nat" where
  "load_loop_tui [] st loaded_count = (st, loaded_count)"
| "load_loop_tui (l # ls) st loaded_count =
     (let line = strip l
      in if is_url_line line then
           if line \<notin> set (album_urls st) then
             load_loop_tui ls
               (st\<lparr>album_urls := album_urls st @ [line],
                   selected_albums := selected_albums st @ [unknown_album line]\<rparr>)
               (loaded_count + 1)
           else load_loop_tui ls st loaded_count
         else load_loop_tui ls st loaded_count)"

definition load_existing_file ::
  "(string \<Rightarrow> bool) \<Rightarrow> (string \<rightharpoonup> file_content) \<Rightarrow> string \<Rightarrow> selector \<Rightarrow> selector \<times> msg list" where
  "load_existing_file urlparse_raises files answer st =
     (let filename = strip answer
      in if filename = [] then (st, [])
         else (case files filename of
                 None \<Rightarrow> (st, [File_not_found filename])
               | Some Unreadable \<Rightarrow> (st, [Error_loading])
               | Some (Lines lines) \<Rightarrow>
                   (let (st', loaded_count) = load_loop urlparse_raises lines st 0
                    in (st', [Loaded loaded_count, Total_now (length (album_urls st'))]))))"

definition load_existing_file_tui ::
  "(string \<rightharpoonup> file_content) \<Rightarrow> string \<Rightarrow> selector \<Rightarrow> selector \<times> msg list" where
  "load_existing_file_tui files answer st =
     (let filename = strip answer
      in if filename = [] then (st, [])
         else (case files filename of
                 None \<Rightarrow> (st, [File_not_found filename])
               | Some Unreadable \<Rightarrow> (st, [Error_loading])
               | Some (Lines lines) \<Rightarrow>
                   (let (st', loaded_count) = load_loop_tui lines st 0
                    in (st', [Loaded loaded_count, Total_now (length (album_urls st'))]))))"

text \<open>
  The \<open>ValueError\<close> ``Invalid IPv6 URL'' of \<open>urllib.parse.urlsplit\<close>, which
  \<open>urlparse\<close> calls: after the scheme and \<open>//\<close>, the network location runs to the next
  \<open>/\<close>, \<open>?\<close> or \<open>#\<close>, and a square bracket without its partner in it raises.
\<close>

definition scheme_char :: "char \<Rightarrow> bool" where
  "scheme_char c = (isalnum c \<or> c \<in> {CHR ''+'', CHR ''-'', CHR ''.''})"

definition after_scheme :: "string \<Rightarrow> string" where
  "after_scheme url =
     (let s = takeWhile (\<lambda>c. c \<noteq> CHR '':'') url
      in if length s < length url \<and> s \<noteq> [] \<and> isalpha (hd s) \<and> list_all scheme_char s
         then drop (Suc (length s)) url
         else url)"

definition invalid_ipv6_url :: "string \<Rightarrow> bool" where
  "invalid_ipv6_url url =
     (let rest = after_scheme url
      in if take 2 rest = ''//'' then
           (let netloc = takeWhile (\<lambda>c. c \<notin> {CHR ''/'', CHR ''?'', CHR ''#''}) (drop 2 rest)
            in (CHR ''['' \<in> set netloc \<and> CHR '']'' \<notin> set netloc)
               \<or> (CHR '']'' \<in> set netloc \<and> CHR ''['' \<notin> set netloc))
         else False)"

definition empty_selector :: selector where
  "empty_selector = \<lparr>selected_albums = [], album_urls = []\<rparr>"

text \<open>
  What one line does to the URL list, and what a whole file does: the part of the state
  that the loading loops of both selectors treat alike.
\<close>

definition load_urls_step :: "string list \<Rightarrow> string \<Rightarrow> string list" where
  "load_urls_step urls l =
     (let line = strip l in if is_url_line line \<and> line \<notin> set urls then urls @ [line] else urls)"

definition load_urls :: "string list \<Rightarrow> string list \<Rightarrow> string list" where
  "load_urls ls urls = foldl load_urls_step urls ls"

section \<open>Sequences of operations on the selection\<close>

text \<open>Two link files: one URL and one comment; and one line that \<open>urlparse\<close> rejects.\<close>

definition links_file :: "string \<rightharpoonup> file_content" where
  "links_file = [''album_links.txt'' \<mapsto>
     Lines [''https://play.qobuz.com/album/1'' @ [CHR 0x0A], ''# a comment'' @ [CHR 0x0A]]]"

definition bad_links_file :: "string \<rightharpoonup> file_content" where
  "bad_links_file = [''album_links.txt'' \<mapsto> Lines [''http://['' @ [CHR 0x0A]]]"

text \<open>
  Source: \<open>show_selected_albums\<close> in \<open>tui_album_selector.py\<close>, lines 484 to 550.
  The command loop of the terminal-UI selector asks for confirmation before \<open>clear\<close>;
  an answer comes with the confirmation that would be given. An empty answer is the
  prompt's default, \<open>back\<close>.
\<close>

definition show_selected_command_tui ::
  "string \<Rightarrow> bool \<Rightarrow> selector \<Rightarrow> bool \<times> selector \<times> msg list" where
  "show_selected_command_tui choice confirm st =
     (if choice = ''back'' then (True, st, [])
      else if choice = ''clear'' then
        (if confirm then (True, st\<lparr>selected_albums := [], album_urls := []\<rparr>, [All_albums_removed])
         else (False, st, []))
      else if startswith choice ''remove '' then
        (let (st', out) = remove_albums_tui choice st in (True, st', out))
      else (False, st, [Invalid_command]))"

fun command_loop_tui ::
  "(string \<times> bool) list \<Rightarrow> selector \<Rightarrow> msg list \<Rightarrow> selector \<times> msg list" where
  "command_loop_tui [] st out = (st, out)"
| "command_loop_tui ((answer, confirm) # answers) st out =
     (case show_selected_command_tui
             (lower (strip (if answer = [] then ''back'' else answer))) confirm st of
        (True, st', out') \<Rightarrow> (st', out @ out')
      | (False, st', out') \<Rightarrow> command_loop_tui answers st' (out @ out'))"

definition show_selected_albums_tui ::
  "(string \<times> bool) list \<Rightarrow> selector \<Rightarrow> selector \<times> msg list" where
  "show_selected_albums_tui answers st =
     (if selected_albums st = [] then (st, [No_albums_selected])
      else command_loop_tui answers st [Selected_albums (length (selected_albums st))])"

text \<open>
  The public mutations of a selector are: adding the albums chosen for an artist, the
  selected-albums view with the answers given in it (\<open>remove ...\<close>, \<open>clear\<close>), and
  loading a file. The environment holds what the selector reads from outside.
\<close>

datatype operation =
    Add_albums string "album_info list" string
  | View "(string \<times> bool) list"
  | Load_file string

record environment =
  env_hash :: "string \<Rightarrow> int"
  env_settings :: module_settings
  env_urlparse_raises :: "string \<Rightarrow> bool"
  env_files :: "string \<rightharpoonup> file_content"

fun apply_operation :: "environment \<Rightarrow> selector \<Rightarrow> operation \<Rightarrow> selector" where
  "apply_operation env st (Add_albums module_name albums artist_name) =
     fst (add_selected_albums (env_hash env) (env_settings env) module_name albums artist_name st)"
| "apply_operation env st (View answers) = fst (show_selected_albums (map fst answers) st)"
| "apply_operation env st (Load_file answer) =
     fst (load_existing_file (env_urlparse_raises env) (env_files env) answer st)"

fun apply_operation_tui :: "environment \<Rightarrow> selector \<Rightarrow> operation \<Rightarrow> selector" where
  "apply_operation_tui env st (Add_albums module_name albums artist_name) =
     fst (add_selected_albums_tui (env_hash env) (env_settings env) module_name albums artist_name st)"
| "apply_operation_tui env st (View answers) = fst (show_selected_albums_tui answers st)"
| "apply_operation_tui env st (Load_file answer) =
     fst (load_existing_file_tui (env_files env) answer st)"

definition lockstep :: "selector \<Rightarrow> bool" where
  "lockstep st = (length (selected_albums st) = length (album_urls st))"

definition bad_env :: environment where
  "bad_env = \<lparr>env_hash = (\<lambda>s. 0), env_settings = qobuz_modules,
     env_urlparse_raises = invalid_ipv6_url, env_files = bad_links_file\<rparr>"

section \<open>Directory synchronization\<close>

text \<open>Source: \<open>sync_music.py\<close>, class \<open>MusicSyncer\<close>.\<close>

subsection \<open>Sizes\<close>

text \<open>
  Source: \<open>format_size\<close>, \<open>sync_music.py\<close>, lines 66 to 72.
  \<open>format_size\<close> divides by \<open>1024.0\<close> and formats with \<open>:.1f\<close>. The quantities are
  rational numbers here. This is what the floating-point code computes for every byte
  count below \<open>2 ^ 53\<close>: such a count is a double, division of a double of at least 1024
  by 1024 is exact, and \<open>:.1f\<close> rounds the exact value to the nearest tenth, a tie to
  the even digit.
\<close>

definition round_half_even :: "rat \<Rightarrow> int" where
  "round_half_even x =
     (let f = \<lfloor>x\<rfloor>; d = x - of_int f
      in if d < 1 / 2 then f else if 1 / 2 < d then f + 1 else if even f then f else f + 1)"

definition format_1f :: "rat \<Rightarrow> string" where
  "format_1f x =
     (let t = nat (round_half_even (\<bar>x\<bar> * 10))
      in (if x < 0 then ''-'' else '''') @ str_nat (t div 10) @ ''.'' @ str_nat (t mod 10))"

definition units :: "string list" where
  "units = [''B'', ''KB'', ''MB'', ''GB'', ''TB'']"

fun format_size_loop :: "rat \<Rightarrow> string list \<Rightarrow> string" where
  "format_size_loop size_bytes [] = format_1f size_bytes @ '' PB''"
| "format_size_loop size_bytes (unit # rest) =
     (if size_bytes < 1024 then format_1f size_bytes @ '' '' @ unit
      else format_size_loop (size_bytes / 1024) rest)"

definition format_size :: "nat \<Rightarrow> string" where
  "format_size size_bytes = format_size_loop (of_nat size_bytes) units"

subsection \<open>The file system\<close>

text \<open>
  A path is the list of its components; the file system is a table from paths to nodes
  (regular files and directories, each with modification time and size), listed in the
  order in which \<open>os.walk\<close> visits them. The root \<open>[]\<close> always exists. Links, permissions
  and the modification times of parent directories are not modelled.
\<close>

type_synonym path = "string list"

datatype kind = Regular | Directory

record node =
  kind :: kind
  st_mtime :: rat
  st_size :: nat

type_synonym filesystem = "(path \<times> node) list"

datatype os_error = FileNotFoundError | FileExistsError | NotADirectoryError | IsADirectoryError

definition path_exists :: "filesystem \<Rightarrow> path \<Rightarrow> bool" where
  "path_exists fs p = (p = [] \<or> map_of fs p \<noteq> None)"

definition isdir :: "filesystem \<Rightarrow> path \<Rightarrow> bool" where
  "isdir fs p = (p = [] \<or> (case map_of fs p of Some n \<Rightarrow> kind n = Directory | None \<Rightarrow> False))"

definition getmtime :: "filesystem \<Rightarrow> path \<Rightarrow> os_error + rat" where
  "getmtime fs p = (case map_of fs p of None \<Rightarrow> Inl FileNotFoundError | Some n \<Rightarrow> Inr (st_mtime n))"

definition getsize :: "filesystem \<Rightarrow> path \<Rightarrow> os_error + nat" where
  "getsize fs p = (case map_of fs p of None \<Rightarrow> Inl FileNotFoundError | Some n \<Rightarrow> Inr (st_size n))"

definition dirname :: "path \<Rightarrow> path" where
  "dirname p = butlast p"

definition join :: "path \<Rightarrow> path \<Rightarrow> path" where
  "join a b = a @ b"

fun common_prefix :: "path \<Rightarrow> path \<Rightarrow> path" where
  "common_prefix (x # xs) (y # ys) = (if x = y then x # common_prefix xs ys else [])"
| "common_prefix xs ys = []"

text \<open>\<open>os.path.relpath\<close>: up from \<open>start\<close> to the common ancestor, then down to \<open>p\<close>.\<close>

definition relpath :: "path \<Rightarrow> path \<Rightarrow> path" where
  "relpath p start =
     (let c = common_prefix p start;
          rel = replicate (length start - length c) ''..'' @ drop (length c) p
      in if rel = [] then [''.''] else rel)"

definition is_under :: "path \<Rightarrow> path \<Rightarrow> bool" where
  "is_under directory p = (length directory < length p \<and> take (length directory) p = directory)"

text \<open>\<open>os.mkdir\<close> inside \<open>os.makedirs(name, exist_ok=True)\<close>, and \<open>os.makedirs\<close> itself.
  The node \<open>fresh\<close> is what the operating system writes for a new directory.\<close>

definition mkdir :: "node \<Rightarrow> path \<Rightarrow> filesystem \<Rightarrow> os_error + filesystem" where
  "mkdir fresh dir_path fs =
     (if path_exists fs dir_path then (if isdir fs dir_path then Inr fs else Inl FileExistsError)
      else if \<not> path_exists fs (dirname dir_path) then Inl FileNotFoundError
      else if \<not> isdir fs (dirname dir_path) then Inl NotADirectoryError
      else Inr (fs @ [(dir_path, fresh)]))"

function makedirs :: "node \<Rightarrow> path \<Rightarrow> filesystem \<Rightarrow> os_error + filesystem" where
  "makedirs fresh dir_path fs =
     (let head = dirname dir_path
      in if head \<noteq> [] \<and> \<not> path_exists fs head then
           (case makedirs fresh head fs of
              Inr fs1 \<Rightarrow> mkdir fresh dir_path fs1
            | Inl FileExistsError \<Rightarrow> mkdir fresh dir_path fs
            | Inl e \<Rightarrow> Inl e)
         else mkdir fresh dir_path fs)"
  by pat_completeness auto
termination
proof (relation "measure (\<lambda>(fresh, dir_path, fs). length dir_path)")
  show "wf (measure (\<lambda>(fresh :: node, dir_path :: path, fs :: filesystem). length dir_path))"
    by simp
next
  fix fresh :: node and dir_path head :: path and fs :: filesystem
  assume h: "head = dirname dir_path" and "head \<noteq> [] \<and> \<not> path_exists fs head"
  then have "dir_path \<noteq> []" by (auto simp: dirname_def)
  then show "((fresh, head, fs), (fresh, dir_path, fs))
      \<in> measure (\<lambda>(fresh, dir_path, fs). length dir_path)"
    using h by (simp add: dirname_def)
qed

declare makedirs.simps [simp del]

text \<open>\<open>shutil.copy2\<close>: content and modification time of the source; into the directory
  when the destination is one.\<close>

definition copy2 :: "path \<Rightarrow> path \<Rightarrow> filesystem \<Rightarrow> os_error + filesystem" where
  "copy2 src dst fs =
     (case map_of fs src of
        None \<Rightarrow> Inl FileNotFoundError
      | Some s \<Rightarrow>
          if kind s = Directory then Inl IsADirectoryError
          else (let target = (if isdir fs dst then dst @ [last src] else dst)
                in if isdir fs target then Inl IsADirectoryError
                   else Inr (AList.update target s fs)))"

definition remove :: "path \<Rightarrow> filesystem \<Rightarrow> os_error + filesystem" where
  "remove p fs =
     (case map_of fs p of
        None \<Rightarrow> Inl FileNotFoundError
      | Some n \<Rightarrow> if kind n = Directory then Inl IsADirectoryError else Inr (AList.delete p fs))"

definition get_all_files :: "filesystem \<Rightarrow> path \<Rightarrow> path list" where
  "get_all_files fs directory =
     map fst (filter (\<lambda>(p, n). is_under directory p \<and> kind n = Regular) fs)"

definition get_directory_size :: "filesystem \<Rightarrow> path \<Rightarrow> nat" where
  "get_directory_size fs directory =
     sum_list (map (\<lambda>(p, n). st_size n)
       (filter (\<lambda>(p, n). is_under directory p \<and> kind n = Regular) fs))"

subsection \<open>\<open>copy_file_with_structure\<close>\<close>

text \<open>Source: \<open>sync_music.py\<close>, lines 82 to 110.\<close>

text \<open>The decision: copy unless the destination exists, is not older and has the same size.\<close>

definition should_copy :: "filesystem \<Rightarrow> path \<Rightarrow> path \<Rightarrow> os_error + bool" where
  "should_copy fs src_file dest_file =
     (if path_exists fs dest_file then
        (case getmtime fs src_file of Inl e \<Rightarrow> Inl e | Inr src_mtime \<Rightarrow>
         case getmtime fs dest_file of Inl e \<Rightarrow> Inl e | Inr dest_mtime \<Rightarrow>
         case getsize fs src_file of Inl e \<Rightarrow> Inl e | Inr src_size \<Rightarrow>
         case getsize fs dest_file of Inl e \<Rightarrow> Inl e | Inr dest_size \<Rightarrow>
           Inr (\<not> (src_mtime \<le> dest_mtime \<and> src_size = dest_size)))
      else Inr True)"

definition copy_file_with_structure ::
  "node \<Rightarrow> path \<Rightarrow> path \<Rightarrow> path \<Rightarrow> bool \<Rightarrow> filesystem \<Rightarrow> os_error + (bool \<times> path \<times> filesystem)" where
  "copy_file_with_structure fresh src_file src_base dest_base dry_run fs =
     (let rel_path = relpath src_file src_base;
          dest_file = join dest_base rel_path;
          dest_dir = dirname dest_file
      in case (if \<not> dry_run then makedirs fresh dest_dir fs else Inr fs) of
           Inl e \<Rightarrow> Inl e
         | Inr fs1 \<Rightarrow>
             (case should_copy fs1 src_file dest_file of
                Inl e \<Rightarrow> Inl e
              | Inr True \<Rightarrow>
                  (case (if \<not> dry_run then copy2 src_file dest_file fs1 else Inr fs1) of
                     Inl e \<Rightarrow> Inl e
                   | Inr fs2 \<Rightarrow> Inr (True, rel_path, fs2))
              | Inr False \<Rightarrow> Inr (False, rel_path, fs1)))"

subsection \<open>\<open>sync_music\<close>\<close>

text \<open>Source: \<open>sync_music.py\<close>, lines 112 to 256; the two roots are those of
  \<open>MusicSyncer.__init__\<close>.\<close>

definition source_dir :: path where
  "source_dir = [''Users'', ''chrismannina'', ''Music'', ''downloads'']"

definition dest_dir :: path where
  "dest_dir = [''Users'', ''chrismannina'', ''Library'', ''CloudStorage'',
     ''SynologyDrive-Sync'', ''Music'']"

datatype sync_msg =
    Error_no_source
  | Warning_creating_destination
  | Header bool
  | Info_scanning
  | Warning_no_files
  | Statistics nat string
  | Warning_cancelled
  | Copied path
  | Skipped path
  | Info_checking_extra
  | Deleted path
  | Deleted_total nat
  | Results nat nat
  | Success_dry_run
  | Success_sync

fun copy_loop ::
  "node \<Rightarrow> bool \<Rightarrow> path list \<Rightarrow> filesystem \<Rightarrow> nat \<Rightarrow> nat \<Rightarrow> sync_msg list \<Rightarrow>
   os_error + (filesystem \<times> nat \<times> nat \<times> sync_msg list)" where
  "copy_loop fresh dry_run [] fs copied_files skipped_files out =
     Inr (fs, copied_files, skipped_files, out)"
| "copy_loop fresh dry_run (src_file # rest) fs copied_files skipped_files out =
     (case copy_file_with_structure fresh src_file source_dir dest_dir dry_run fs of
        Inl e \<Rightarrow> Inl e
      | Inr (was_copied, rel_path, fs') \<Rightarrow>
          if was_copied then
            copy_loop fresh dry_run rest fs' (copied_files + 1) skipped_files
              (out @ [Copied rel_path])
          else
            copy_loop fresh dry_run rest fs' copied_files (skipped_files + 1)
              (out @ [Skipped rel_path]))"

fun delete_loop ::
  "bool \<Rightarrow> path list \<Rightarrow> filesystem \<Rightarrow> nat \<Rightarrow> sync_msg list \<Rightarrow>
   os_error + (filesystem \<times> nat \<times> sync_msg list)" where
  "delete_loop dry_run [] fs deleted_files out = Inr (fs, deleted_files, out)"
| "delete_loop dry_run (dest_file # rest) fs deleted_files out =
     (let rel_path = relpath dest_file dest_dir;
          src_equivalent = join source_dir rel_path
      in if \<not> path_exists fs src_equivalent then
           (case (if \<not> dry_run then remove dest_file fs else Inr fs) of
              Inl e \<Rightarrow> Inl e
            | Inr fs' \<Rightarrow>
                delete_loop dry_run rest fs' (deleted_files + 1) (out @ [Deleted rel_path]))
         else delete_loop dry_run rest fs deleted_files out)"

text \<open>
  The whole run, in the order of the source: the destination directory is created when
  missing; the source files are listed and counted; the user confirms (\<open>proceed\<close> is
  the answer to ``Proceed with sync?'', asked only when \<open>dry_run\<close> is off); the files
  are copied; the extra files are deleted. The result is the return value, the file
  system afterwards and the report; \<open>Inl\<close> is an exception that leaves \<open>sync_music\<close>.
\<close>

definition create_destination ::
  "node \<Rightarrow> bool \<Rightarrow> filesystem \<Rightarrow> os_error + (filesystem \<times> sync_msg list)" where
  "create_destination fresh dry_run fs =
     (if \<not> path_exists fs dest_dir then
        (case (if \<not> dry_run then makedirs fresh dest_dir fs else Inr fs) of
           Inl e \<Rightarrow> Inl e
         | Inr fs1 \<Rightarrow> Inr (fs1, [Warning_creating_destination]))
      else Inr (fs, []))"

definition delete_extra_files ::
  "bool \<Rightarrow> bool \<Rightarrow> filesystem \<Rightarrow> sync_msg list \<Rightarrow> os_error + (filesystem \<times> sync_msg list)" where
  "delete_extra_files dry_run delete_extra fs out =
     (if delete_extra \<and> \<not> dry_run then
        (case delete_loop dry_run (get_all_files fs dest_dir) fs 0 (out @ [Info_checking_extra]) of
           Inl e \<Rightarrow> Inl e
         | Inr (fs', deleted_files, out') \<Rightarrow>
             Inr (fs', if 0 < deleted_files then out' @ [Deleted_total deleted_files] else out'))
      else Inr (fs, out))"

definition sync_music ::
  "node \<Rightarrow> bool \<Rightarrow> bool \<Rightarrow> bool \<Rightarrow> filesystem \<Rightarrow> os_error + (bool \<times> filesystem \<times> sync_msg list)" where
  "sync_music fresh dry_run delete_extra proceed fs =
     (if \<not> path_exists fs source_dir then Inr (False, fs, [Error_no_source])
      else
        (case create_destination fresh dry_run fs of
           Inl e \<Rightarrow> Inl e
         | Inr (fs1, out1) \<Rightarrow>
             (let out2 = out1 @ [Header dry_run, Info_scanning];
                  source_files = get_all_files fs1 source_dir
              in if source_files = [] then Inr (True, fs1, out2 @ [Warning_no_files])
                 else
                   (let source_size = get_directory_size fs1 source_dir;
                        out3 = out2 @ [Statistics (length source_files) (format_size source_size)]
                    in if \<not> dry_run \<and> \<not> proceed then Inr (False, fs1, out3 @ [Warning_cancelled])
                       else
                         (case copy_loop fresh dry_run source_files fs1 0 0 out3 of
                            Inl e \<Rightarrow> Inl e
                          | Inr (fs2, copied_files, skipped_files, out4) \<Rightarrow>
                              (case delete_extra_files dry_run delete_extra fs2 out4 of
                                 Inl e \<Rightarrow> Inl e
                               | Inr (fs3, out5) \<Rightarrow>
                                   Inr (True, fs3,
                                     out5 @ [Results copied_files skipped_files,
                                             if dry_run then Success_dry_run else Success_sync])))))))"

text \<open>A file system for the concrete evaluations: one album already synchronized, one
  new song in the source, one file only in the destination.\<close>

definition a_dir :: node where
  "a_dir = \<lparr>kind = Directory, st_mtime = 100, st_size = 0\<rparr>"

definition music_fs :: filesystem where
  "music_fs =
     [([''Users''], a_dir),
      ([''Users'', ''chrismannina''], a_dir),
      ([''Users'', ''chrismannina'', ''Music''], a_dir),
      (source_dir, a_dir),
      (source_dir @ [''old.flac''], \<lparr>kind = Regular, st_mtime = 200, st_size = 1536\<rparr>),
      (source_dir @ [''new.flac''], \<lparr>kind = Regular, st_mtime = 300, st_size = 1023\<rparr>),
      ([''Users'', ''chrismannina'', ''Library''], a_dir),
      ([''Users'', ''chrismannina'', ''Library'', ''CloudStorage''], a_dir),
      ([''Users'', ''chrismannina'', ''Library'', ''CloudStorage'', ''SynologyDrive-Sync''], a_dir),
      (dest_dir, a_dir),
      (dest_dir @ [''old.flac''], \<lparr>kind = Regular, st_mtime = 200, st_size = 1536\<rparr>),
      (dest_dir @ [''extra.flac''], \<lparr>kind = Regular, st_mtime = 150, st_size = 7\<rparr>)]"

subsection \<open>Notions used in the statements\<close>

text \<open>What \<open>mkdir\<close> and \<open>makedirs\<close> change: they add entries for missing paths no longer
  than their argument and touch nothing else.\<close>

definition grows :: "filesystem \<Rightarrow> filesystem \<Rightarrow> nat \<Rightarrow> bool" where
  "grows fs fs1 n = (\<forall>p. map_of fs1 p = map_of fs p \<or> (map_of fs p = None \<and> length p \<le> n))"

text \<open>
  The copy rule in the words of the specification: a file is copied when it does not
  exist at the destination, or the destination is older, or the sizes differ.
  \<open>is_deleted\<close> recognizes the reports of a deletion; \<open>report\<close> is what a run printed.
\<close>

definition copy_needed :: "node \<Rightarrow> node option \<Rightarrow> bool" where
  "copy_needed s dest =
     (case dest of None \<Rightarrow> True | Some d \<Rightarrow> st_mtime d < st_mtime s \<or> st_size d \<noteq> st_size s)"

fun is_deleted :: "sync_msg \<Rightarrow> bool" where
  "is_deleted (Deleted p) = True"
| "is_deleted (Deleted_total n) = True"
| "is_deleted m = False"

definition report :: "os_error + (bool \<times> filesystem \<times> sync_msg list) \<Rightarrow> sync_msg list" where
  "report r = (case r of Inl e \<Rightarrow> [] | Inr (ok, fs, out) \<Rightarrow> out)"

section \<open>The login probe\<close>

text \<open>
  Source: \<open>scripts/test_qobuz_login.py\<close>, \<open>load_credentials_from_settings\<close> (lines 24
  to 67) and \<open>run_login_test\<close> (lines 70 to 111).
  The parsed settings file is a JSON value. \<open>json.load\<close> gives \<open>None\<close> for \<open>null\<close>;
  \<open>dict.get\<close> gives \<open>None\<close> for a missing key, so both are \<open>JNull\<close>. Numbers are integers
  here.
\<close>

datatype json =
    JNull
  | JBool bool
  | JNum int
  | JStr string
  | JList "json list"
  | JObject "(string \<times> json) list"

text \<open>Python's truth value of a parsed JSON value.\<close>

fun is_true :: "json \<Rightarrow> bool" where
  "is_true JNull = False"
| "is_true (JBool b) = b"
| "is_true (JNum n) = (n \<noteq> 0)"
| "is_true (JStr s) = (s \<noteq> [])"
| "is_true (JList xs) = (xs \<noteq> [])"
| "is_true (JObject kvs) = (kvs \<noteq> [])"

text \<open>What opening and parsing \<open>config/settings.json\<close> gives.\<close>

datatype settings_file = File_missing | Invalid_json | Other_failure | Parsed json

datatype login_msg =
    Error_qobuz_not_found
  | Error_missing_credentials "string list"
  | Error_placeholder_credentials
  | Error_settings_not_found
  | Error_json
  | Error_loading_settings
  | Attempting_login json
  | Calling_login
  | Login_successful string
  | Login_failed_no_token
  | Login_failed_qobuz string
  | Login_failed_unexpected string

text \<open>\<open>d.get(key)\<close> on a value: \<open>AttributeError\<close> (here \<open>None\<close>) unless it is a dictionary.\<close>

definition get :: "json \<Rightarrow> string \<Rightarrow> json \<Rightarrow> json option" where
  "get d key dflt =
     (case d of
        JObject kvs \<Rightarrow> Some (case map_of kvs key of Some v \<Rightarrow> v | None \<Rightarrow> dflt)
      | _ \<Rightarrow> None)"

text \<open>The dictionary \<open>credentials\<close>, in the order of its keys.\<close>

definition credentials_of :: "json \<Rightarrow> (string \<times> json) list option" where
  "credentials_of qobuz_settings =
     (case get qobuz_settings ''app_id'' JNull of None \<Rightarrow> None | Some app_id \<Rightarrow>
      case get qobuz_settings ''app_secret'' JNull of None \<Rightarrow> None | Some app_secret \<Rightarrow>
      case get qobuz_settings ''username'' JNull of None \<Rightarrow> None | Some username \<Rightarrow>
      case get qobuz_settings ''password'' JNull of None \<Rightarrow> None | Some password \<Rightarrow>
        Some [(''app_id'', app_id), (''app_secret'', app_secret),
              (''email'', username), (''password'', password)])"

definition has_placeholder :: "(string \<times> json) list \<Rightarrow> bool" where
  "has_placeholder credentials =
     (map_of credentials ''app_id'' = Some (JStr ''YOUR_APP_ID'')
      \<or> map_of credentials ''app_secret'' = Some (JStr ''YOUR_APP_SECRET'')
      \<or> map_of credentials ''email'' = Some (JStr ''YOUR_QOBUZ_EMAIL'')
      \<or> map_of credentials ''password'' = Some (JStr ''YOUR_QOBUZ_PASSWORD''))"

text \<open>
  \<open>load_credentials_from_settings\<close>: the credentials or \<open>None\<close>, and what was printed.
  An \<open>AttributeError\<close> inside the \<open>try\<close> block ends in the last \<open>except\<close> branch.
\<close>

definition load_credentials_from_settings ::
  "settings_file \<Rightarrow> (string \<times> json) list option \<times> login_msg list" where
  "load_credentials_from_settings file =
     (case file of
        File_missing \<Rightarrow> (None, [Error_settings_not_found])
      | Invalid_json \<Rightarrow> (None, [Error_json])
      | Other_failure \<Rightarrow> (None, [Error_loading_settings])
      | Parsed settings \<Rightarrow>
          (case get settings ''modules'' (JObject []) of
             None \<Rightarrow> (None, [Error_loading_settings])
           | Some modules \<Rightarrow>
               (case get modules ''qobuz'' JNull of
                  None \<Rightarrow> (None, [Error_loading_settings])
                | Some qobuz_settings \<Rightarrow>
                    if \<not> is_true qobuz_settings then (None, [Error_qobuz_not_found])
                    else
                      (case credentials_of qobuz_settings of
                         None \<Rightarrow> (None, [Error_loading_settings])
                       | Some credentials \<Rightarrow>
                           if \<not> list_all is_true (map snd credentials) then
                             (None,
                              [Error_missing_credentials
                                 (map fst (filter (\<lambda>(k, v). \<not> is_true v) credentials))])
                           else if has_placeholder credentials then
                             (None, [Error_placeholder_credentials])
                           else (Some credentials, [])))))"

text \<open>
  Modelled from the spec: the client whose ``one synchronous authentication call'' the
  probe performs (class \<open>Qobuz\<close> of \<open>modules/qobuz/qobuz_api.py\<close>, which is not among
  the sources). It is a parameter: whether constructing the client raises, and what
  \<open>login\<close> does for given application and account data.
\<close>

datatype outcome = Returns string | Raises_qobuz_error string | Raises_other string

record qobuz_api =
  new_client :: "json \<Rightarrow> json \<Rightarrow> outcome"
  login :: "json \<Rightarrow> json \<Rightarrow> json \<Rightarrow> json \<Rightarrow> outcome"

datatype api_call = Login_call json json

definition lookup_credential :: "(string \<times> json) list \<Rightarrow> string \<Rightarrow> json" where
  "lookup_credential credentials key =
     (case map_of credentials key of Some v \<Rightarrow> v | None \<Rightarrow> JNull)"

text \<open>\<open>run_login_test\<close>: what was printed, and the authentication calls made.\<close>

definition run_login_test :: "qobuz_api \<Rightarrow> settings_file \<Rightarrow> login_msg list \<times> api_call list" where
  "run_login_test api file =
     (case load_credentials_from_settings file of
        (None, out) \<Rightarrow> (out, [])
      | (Some credentials, out) \<Rightarrow>
          (let app_id = lookup_credential credentials ''app_id'';
               app_secret = lookup_credential credentials ''app_secret'';
               email = lookup_credential credentials ''email'';
               password = lookup_credential credentials ''password'';
               out1 = out @ [Attempting_login email]
           in case new_client api app_id app_secret of
                Raises_qobuz_error m \<Rightarrow> (out1 @ [Login_failed_qobuz m], [])
              | Raises_other m \<Rightarrow> (out1 @ [Login_failed_unexpected m], [])
              | Returns c \<Rightarrow>
                  (case login api app_id app_secret email password of
                     Returns token \<Rightarrow>
                       (out1 @ [Calling_login,
                                if token \<noteq> [] then Login_successful (take 10 token)
                                else Login_failed_no_token],
                        [Login_call email password])
                   | Raises_qobuz_error m \<Rightarrow>
                       (out1 @ [Calling_login, Login_failed_qobuz m],
                        [Login_call email password])
                   | Raises_other m \<Rightarrow>
                       (out1 @ [Calling_login, Login_failed_unexpected m],
                        [Login_call email password]))))"

text \<open>A client that accepts everything, and settings files for the evaluations.\<close>

definition accepting_api :: qobuz_api where
  "accepting_api = \<lparr>new_client = (\<lambda>app_id app_secret. Returns ''client''),
     login = (\<lambda>app_id app_secret email password. Returns ''token-0123456789abcdef'')\<rparr>"

definition settings_with :: "json \<Rightarrow> json \<Rightarrow> json \<Rightarrow> json \<Rightarrow> settings_file" where
  "settings_with app_id app_secret username password =
     Parsed (JObject [(''modules'',
       JObject [(''qobuz'',
         JObject [(''app_id'', app_id), (''app_secret'', app_secret),
                  (''username'', username), (''password'', password)])])])"

text \<open>The fields of the credentials that are empty, by the names the message uses.\<close>

definition empty_fields :: "json \<Rightarrow> json \<Rightarrow> json \<Rightarrow> json \<Rightarrow> string list" where
  "empty_fields app_id app_secret username password =
     map fst (filter (\<lambda>(k, v). \<not> is_true v)
       [(''app_id'', app_id), (''app_secret'', app_secret),
        (''email'', username), (''password'', password)])"

definition placeholder_fields :: "json \<Rightarrow> json \<Rightarrow> json \<Rightarrow> json \<Rightarrow> string list" where
  "placeholder_fields app_id app_secret username password =
     map fst (filter (\<lambda>(k, v). v)
       [(''app_id'', app_id = JStr ''YOUR_APP_ID''),
        (''app_secret'', app_secret = JStr ''YOUR_APP_SECRET''),
        (''email'', username = JStr ''YOUR_QOBUZ_EMAIL''),
        (''password'', password = JStr ''YOUR_QOBUZ_PASSWORD'')])"

text \<open>
  The \<open>qobuz\<close> dictionary of a settings file, when the file parses and holds a non-empty
  one under \<open>modules\<close>; and a field of it (\<open>JNull\<close> when the key is missing).
\<close>

definition qobuz_section :: "settings_file \<Rightarrow> (string \<times> json) list option" where
  "qobuz_section file =
     (case file of
        Parsed settings \<Rightarrow>
          (case get settings ''modules'' (JObject []) of
             Some modules \<Rightarrow>
               (case get modules ''qobuz'' JNull of
                  Some (JObject kvs) \<Rightarrow> if kvs \<noteq> [] then Some kvs else None
                | _ \<Rightarrow> None)
           | None \<Rightarrow> None)
      | _ \<Rightarrow> None)"

definition field :: "(string \<times> json) list \<Rightarrow> string \<Rightarrow> json" where
  "field kvs key = (case map_of kvs key of Some v \<Rightarrow> v | None \<Rightarrow> JNull)"

chapter \<open>Their properties\<close>

section \<open>Properties of removal from the selection list\<close>

lemma collect_indices_tui_first:
  "\<forall>t \<in> set nums. py_int t \<noteq> None \<Longrightarrow> find (out_of_range n) nums = Some t \<Longrightarrow>
   collect_indices_tui n nums idxs = Scan_Invalid t"
proof (induction nums arbitrary: idxs)
  case Nil
  then show ?case by simp
next
  case (Cons a nums)
  obtain v where v: "py_int a = Some v" using Cons.prems(1) by auto
  show ?case
  proof (cases "out_of_range n a")
    case True
    then have "a = t" using Cons.prems(2) by simp
    then show ?thesis using True v by (auto simp: out_of_range_def)
  next
    case False
    then have "find (out_of_range n) nums = Some t" using Cons.prems(2) by simp
    then have "collect_indices_tui n nums (idxs @ [v - 1]) = Scan_Invalid t"
      using Cons.IH Cons.prems(1) by simp
    then show ?thesis using False v by (auto simp: out_of_range_def)
  qed
qed

lemma collect_indices_all:
  "\<forall>t \<in> set nums. py_int t \<noteq> None \<Longrightarrow>
   collect_indices n nums idxs out =
     (Some (idxs @ map (\<lambda>t. the (py_int t) - 1) (filter (in_range n) nums)),
      out @ map Invalid_album_number (filter (out_of_range n) nums))"
proof (induction nums arbitrary: idxs out)
  case Nil
  then show ?case by simp
next
  case (Cons a nums)
  obtain v where v: "py_int a = Some v" using Cons.prems by auto
  have ih: "\<And>idxs out. collect_indices n nums idxs out =
     (Some (idxs @ map (\<lambda>t. the (py_int t) - 1) (filter (in_range n) nums)),
      out @ map Invalid_album_number (filter (out_of_range n) nums))"
    using Cons.IH Cons.prems by simp
  show ?case
  proof (cases "1 \<le> v \<and> v \<le> int n")
    case True
    then have "in_range n a" "\<not> out_of_range n a"
      using v by (auto simp: in_range_def out_of_range_def)
    then show ?thesis using v ih True by (simp add: Let_def)
  next
    case False
    then have "\<not> in_range n a" "out_of_range n a"
      using v by (auto simp: in_range_def out_of_range_def)
    moreover have "\<not> (0 \<le> v - 1 \<and> v - 1 < int n)" using False by auto
    ultimately show ?thesis using v ih by (simp add: Let_def)
  qed
qed

lemma remove_loop_reports:
  "filter is_invalid_report (snd (snd (remove_loop idxs st out))) = filter is_invalid_report out"
proof (induction idxs arbitrary: st out)
  case Nil
  then show ?case by simp
next
  case (Cons i idxs)
  then show ?case by (simp split: option.splits prod.splits)
qed

lemma remove_command_reports:
  assumes "\<forall>t \<in> set (tl (split command)). py_int t \<noteq> None"
  shows "filter is_invalid_report (snd (snd (remove_command command st))) =
     map Invalid_album_number (filter (out_of_range (length (selected_albums st))) (tl (split command)))"
proof -
  let ?n = "length (selected_albums st)"
  let ?nums = "tl (split command)"
  let ?idxs = "map (\<lambda>t. the (py_int t) - 1) (filter (in_range ?n) ?nums)"
  let ?out = "map Invalid_album_number (filter (out_of_range ?n) ?nums)"
  have c: "collect_indices ?n ?nums [] [] = (Some ?idxs, ?out)"
    using collect_indices_all[OF assms, of ?n "[]" "[]"] by simp
  obtain b st' out' where r: "remove_loop (rev (sort ?idxs)) st ?out = (b, st', out')"
    by (cases "remove_loop (rev (sort ?idxs)) st ?out") auto
  have "filter is_invalid_report out' = filter is_invalid_report ?out"
    using remove_loop_reports[of "rev (sort ?idxs)" st ?out] r by simp
  moreover have "filter is_invalid_report ?out = ?out"
    by (induction "filter (out_of_range ?n) ?nums") auto
  ultimately show ?thesis
    using c r by (cases b) (simp_all add: remove_command_def Let_def)
qed

lemma remove_albums_tui_first:
  assumes "\<forall>t \<in> set (tl (split command)). py_int t \<noteq> None"
    and "find (out_of_range (length (selected_albums st))) (tl (split command)) = Some t"
  shows "remove_albums_tui command st = (st, [Invalid_album_number t])"
  using collect_indices_tui_first[OF assms, of "[]"]
  by (simp add: remove_albums_tui_def Let_def)

lemma pop_nat:
  "k < length xs \<Longrightarrow> pop xs (int k) = Some (xs ! k, take k xs @ drop (Suc k) xs)"
  by (simp add: pop_def)

lemma pop_second:
  assumes "Suc k < length xs"
  shows "pop (take k xs @ drop (Suc k) xs) (int k) = Some (xs ! Suc k, take k xs @ drop (Suc (Suc k)) xs)"
proof -
  let ?ys = "take k xs @ drop (Suc k) xs"
  have len: "k < length ?ys" using assms by simp
  have "?ys ! k = xs ! Suc k" using assms by (simp add: nth_append)
  moreover have "take k ?ys @ drop (Suc k) ?ys = take k xs @ drop (Suc (Suc k)) xs"
    using assms by (simp add: min_def)
  ultimately show ?thesis using pop_nat[OF len] by simp
qed


lemma collect_indices_pair:
  assumes "py_int t1 = Some n" "py_int t2 = Some n" "1 \<le> n" "n < int len"
  shows "collect_indices len [t1, t2] [] [] = (Some [n - 1, n - 1], [])"
    and "collect_indices_tui len [t1, t2] [] = Scan_Ok [n - 1, n - 1]"
  using assms by (simp_all add: Let_def)

text \<open>
  Claim C1, as the code has it. Let every token of a \<open>remove\<close> command convert to an
  integer and let \<open>t\<close> be the first token out of range. The terminal-UI selector
  removes nothing, leaves both lists as they were and reports \<open>t\<close> (and no later
  token). The menu selector reports every token out of range, in the order of the
  command.
\<close>

theorem remove_out_of_range:
  assumes "\<forall>t \<in> set (tl (split command)). py_int t \<noteq> None"
    and "find (out_of_range (length (selected_albums st))) (tl (split command)) = Some t"
  shows "remove_albums_tui command st = (st, [Invalid_album_number t])
    \<and> filter is_invalid_report (snd (snd (remove_command command st))) =
        map Invalid_album_number
          (filter (out_of_range (length (selected_albums st))) (tl (split command)))"
  using remove_albums_tui_first[OF assms] remove_command_reports[OF assms(1)] by simp

theorem remove_out_of_range_witness:
  "remove_albums_tui ''remove 1 99 0'' two_albums = (two_albums, [Invalid_album_number ''99''])
   \<and> filter is_invalid_report (snd (snd (remove_command ''remove 1 99 0'' two_albums))) =
       [Invalid_album_number ''99'', Invalid_album_number ''0'']"
proof -
  have toks: "tl (split ''remove 1 99 0'') = [''1'', ''99'', ''0'']"
    by (simp add: split_def isspace_def)
  have p: "py_int ''1'' = Some 1" "py_int ''99'' = Some 99" "py_int ''0'' = Some 0"
    by (simp_all add: py_int_def isdigit_def digit_val_def)
  have len: "length (selected_albums two_albums) = 2"
    by (simp add: two_albums_def)
  have h1: "\<forall>t \<in> set (tl (split ''remove 1 99 0'')). py_int t \<noteq> None"
    by (simp add: toks p)
  have h2: "find (out_of_range (length (selected_albums two_albums))) (tl (split ''remove 1 99 0''))
      = Some ''99''"
    by (simp add: toks len out_of_range_def p)
  show ?thesis
    using remove_out_of_range[OF h1 h2] by (simp add: toks len out_of_range_def p)
qed

text \<open>
  The claim as written fails in both selectors. In the menu selector \<open>remove 1 99\<close>
  on two albums removes the first album and its URL although \<open>99\<close> is out of range.
  In the terminal-UI selector \<open>remove 98 99\<close> reports \<open>98\<close> only.
\<close>

theorem remove_out_of_range_counterexample:
  "remove_command ''remove 1 99'' two_albums =
     (True,
      \<lparr>selected_albums = [album_b], album_urls = [''https://play.qobuz.com/album/2'']\<rparr>,
      [Invalid_album_number ''99'', Removed ''Artist'' ''First'', Remaining_albums 1])
   \<and> remove_albums_tui ''remove 98 99'' two_albums = (two_albums, [Invalid_album_number ''98''])"
  by (simp add: remove_command_def remove_albums_tui_def split_def isspace_def py_int_def
      isdigit_def digit_val_def two_albums_def album_a_def pop_def)

text \<open>
  Claim C10. A \<open>remove\<close> command with two tokens that both convert to the same
  position \<open>n\<close>, with \<open>1 \<le> n\<close> and \<open>n\<close> less than the length of the list, pops index
  \<open>n - 1\<close> twice in both selectors: the records at the 1-based positions \<open>n\<close> and
  \<open>n + 1\<close> leave both lists, and two removals are counted.
\<close>

theorem remove_repeated_index:
  assumes toks: "tl (split command) = [t1, t2]"
    and t1: "py_int t1 = Some n" and t2: "py_int t2 = Some n"
    and n1: "1 \<le> n" and n2: "n < int (length (selected_albums st))"
    and len: "length (album_urls st) = length (selected_albums st)"
  shows "remove_command command st =
      (True,
       st\<lparr>selected_albums := take (nat n - 1) (selected_albums st) @ drop (nat n + 1) (selected_albums st),
          album_urls := take (nat n - 1) (album_urls st) @ drop (nat n + 1) (album_urls st)\<rparr>,
       [Removed (sel_artist (selected_albums st ! (nat n - 1))) (sel_album (selected_albums st ! (nat n - 1))),
        Removed (sel_artist (selected_albums st ! nat n)) (sel_album (selected_albums st ! nat n)),
        Remaining_albums (length (selected_albums st) - 2)])
    \<and> remove_albums_tui command st =
      (st\<lparr>selected_albums := take (nat n - 1) (selected_albums st) @ drop (nat n + 1) (selected_albums st),
          album_urls := take (nat n - 1) (album_urls st) @ drop (nat n + 1) (album_urls st)\<rparr>,
       [Removed_count 2, Remaining_albums (length (selected_albums st) - 2)])"
proof -
  define k where "k = nat n - 1"
  let ?sa = "selected_albums st" and ?au = "album_urls st"
  have nk: "n - 1 = int k" "nat n = Suc k" using n1 by (auto simp: k_def)
  have k: "Suc k < length ?sa" "Suc k < length ?au" using n1 n2 len by (auto simp: k_def)
  have k': "k < length ?sa" "k < length ?au" using k by auto
  have srt: "rev (sort [n - 1, n - 1]) = [int k, int k]" by (simp add: nk)
  have p1: "pop ?sa (int k) = Some (?sa ! k, take k ?sa @ drop (Suc k) ?sa)"
    and p2: "pop ?au (int k) = Some (?au ! k, take k ?au @ drop (Suc k) ?au)"
    using pop_nat k' by blast+
  have q1: "pop (take k ?sa @ drop (Suc k) ?sa) (int k) = Some (?sa ! Suc k, take k ?sa @ drop (Suc (Suc k)) ?sa)"
    and q2: "pop (take k ?au @ drop (Suc k) ?au) (int k) = Some (?au ! Suc k, take k ?au @ drop (Suc (Suc k)) ?au)"
    using pop_second k by blast+
  have lenr: "length (take k ?sa @ drop (Suc (Suc k)) ?sa) = length ?sa - 2"
    using k by simp
  have a: "remove_loop [int k, int k] st [] =
      (True, st\<lparr>selected_albums := take k ?sa @ drop (Suc (Suc k)) ?sa,
                 album_urls := take k ?au @ drop (Suc (Suc k)) ?au\<rparr>,
       [Removed (sel_artist (?sa ! k)) (sel_album (?sa ! k)),
        Removed (sel_artist (?sa ! Suc k)) (sel_album (?sa ! Suc k))])"
    by (simp add: p1 p2 q1 q2)
  have b: "remove_loop_tui [int k, int k] st 0 =
      (True, st\<lparr>selected_albums := take k ?sa @ drop (Suc (Suc k)) ?sa,
                 album_urls := take k ?au @ drop (Suc (Suc k)) ?au\<rparr>, 2)"
    by (simp add: p1 p2 q1 q2)
  have c: "collect_indices (length ?sa) [t1, t2] [] [] = (Some [n - 1, n - 1], [])"
    and d: "collect_indices_tui (length ?sa) [t1, t2] [] = Scan_Ok [n - 1, n - 1]"
    using collect_indices_pair[OF t1 t2 n1 n2] by blast+
  have "remove_command command st =
      (True, st\<lparr>selected_albums := take k ?sa @ drop (Suc (Suc k)) ?sa,
                 album_urls := take k ?au @ drop (Suc (Suc k)) ?au\<rparr>,
       [Removed (sel_artist (?sa ! k)) (sel_album (?sa ! k)),
        Removed (sel_artist (?sa ! Suc k)) (sel_album (?sa ! Suc k)),
        Remaining_albums (length ?sa - 2)])"
    apply (simp only: remove_command_def toks Let_def c prod.case option.case srt a)
    using lenr by simp
  moreover have "remove_albums_tui command st =
      (st\<lparr>selected_albums := take k ?sa @ drop (Suc (Suc k)) ?sa,
          album_urls := take k ?au @ drop (Suc (Suc k)) ?au\<rparr>,
       [Removed_count 2, Remaining_albums (length ?sa - 2)])"
    apply (simp only: remove_albums_tui_def toks Let_def d scan.case srt b)
    using lenr by simp
  ultimately show ?thesis by (simp add: nk)
qed

theorem remove_repeated_index_witness:
  "remove_command ''remove 2 2'' three_albums =
     (True, \<lparr>selected_albums = [album_a], album_urls = [''u1'']\<rparr>,
      [Removed ''Artist'' ''Second'', Removed ''Artist'' ''First'', Remaining_albums 1])
   \<and> remove_albums_tui ''remove 2 2'' three_albums =
     (\<lparr>selected_albums = [album_a], album_urls = [''u1'']\<rparr>,
      [Removed_count 2, Remaining_albums 1])"
proof -
  have toks: "tl (split ''remove 2 2'') = [''2'', ''2'']"
    by (simp add: split_def isspace_def)
  have p: "py_int ''2'' = Some 2"
    by (simp add: py_int_def isdigit_def digit_val_def)
  have r: "(2::int) < int (length (selected_albums three_albums))"
    "length (album_urls three_albums) = length (selected_albums three_albums)"
    by (simp_all add: three_albums_def)
  show ?thesis
    using remove_repeated_index[OF toks p p _ r]
    by (simp add: three_albums_def album_a_def album_b_def)
qed

section \<open>Properties of album URL reconstruction\<close>

lemma url_base_fails:
  "(\<exists>e. url_base settings module_name = Inl e) =
   (map_of settings module_name = None \<or>
    (\<exists>ms. map_of settings module_name = Some ms \<and> netlocation_constant ms = Netloc_list []))"
  by (auto simp: url_base_def first_netloc_def Let_def
      split: option.splits netloc.splits list.splits sum.splits)

lemma url_base_https: "url_base settings module_name = Inr base \<Longrightarrow> take 8 base = ''https://''"
  by (auto simp: url_base_def Let_def split: option.splits sum.splits)

lemma set_strip: "set (strip s) \<subseteq> set s"
proof -
  have "set (strip s) = set (dropWhile isspace (rev (dropWhile isspace s)))"
    by (simp add: strip_def)
  also have "\<dots> \<subseteq> set (rev (dropWhile isspace s))" by (auto dest: set_dropWhileD)
  also have "\<dots> \<subseteq> set s" by (auto dest: set_dropWhileD)
  finally show ?thesis .
qed

lemma safe_name_chars:
  "c \<in> set (safe_name n) \<Longrightarrow> isalnum c \<or> c = CHR '' '' \<or> c = CHR ''-'' \<or> c = CHR ''_''"
proof -
  assume "c \<in> set (safe_name n)"
  then have "c \<in> set (filter (\<lambda>c. isalnum c \<or> c \<in> {CHR '' '', CHR ''-'', CHR ''_''}) n)"
    using set_strip unfolding safe_name_def by blast
  then show ?thesis by auto
qed

text \<open>
  Claim C3, as the code has it. \<open>generate_album_url\<close> always returns a line. URL
  construction fails exactly when the module is not in the module table or its network
  location is an empty list. Both selectors then return the comment line
  \<open># <safe name> (<year>) - <artist>\<close>, where only the album name is filtered (to
  alphanumeric characters, space, hyphen and underscore, then stripped); the year and
  the artist are inserted as they are. The menu selector also prints a warning that
  names the album; the terminal-UI selector prints nothing. In every other case the
  result is an \<open>https\<close> URL and nothing is printed.
\<close>

theorem generate_album_url_fallback:
  "(map_of settings module_name = None
      \<or> (\<exists>ms. map_of settings module_name = Some ms \<and> netlocation_constant ms = Netloc_list [])
    \<longrightarrow> generate_album_url hash settings module_name a =
          (''# '' @ safe_name (name a) @ '' ('' @ str_int (release_year a) @ '') - '' @ artist a,
           [Warning_no_url (name a)])
        \<and> generate_album_url_tui hash settings module_name a =
          ''# '' @ safe_name (name a) @ '' ('' @ str_int (release_year a) @ '') - '' @ artist a)
   \<and> (\<not> (map_of settings module_name = None
         \<or> (\<exists>ms. map_of settings module_name = Some ms \<and> netlocation_constant ms = Netloc_list []))
    \<longrightarrow> (\<exists>base. url_base settings module_name = Inr base \<and> take 8 base = ''https://''
          \<and> generate_album_url hash settings module_name a =
              (base @ id_text hash (album_id_of a) a, [])
          \<and> generate_album_url_tui hash settings module_name a =
              base @ id_text hash (album_id_of_tui a) a))
   \<and> (\<forall>c \<in> set (safe_name (name a)).
          isalnum c \<or> c = CHR '' '' \<or> c = CHR ''-'' \<or> c = CHR ''_'')"
proof (cases "url_base settings module_name")
  case (Inl e)
  then have f: "map_of settings module_name = None
      \<or> (\<exists>ms. map_of settings module_name = Some ms \<and> netlocation_constant ms = Netloc_list [])"
    unfolding url_base_fails[symmetric] by blast
  show ?thesis
    using Inl f safe_name_chars
    by (auto simp add: generate_album_url_def generate_album_url_tui_def fallback_comment_def)
next
  case (Inr base)
  then have f: "\<not> (map_of settings module_name = None
      \<or> (\<exists>ms. map_of settings module_name = Some ms \<and> netlocation_constant ms = Netloc_list []))"
    unfolding url_base_fails[symmetric] by simp
  have "take 8 base = ''https://''" using Inr by (rule url_base_https)
  then show ?thesis
    using Inr f safe_name_chars
    by (auto simp add: generate_album_url_def generate_album_url_tui_def)
qed

theorem generate_album_url_fallback_witness:
  "generate_album_url (\<lambda>s. 0) qobuz_modules ''tidal'' back_in_black =
      (''# Back in Black (1980) - AC/DC'', [Warning_no_url ''Back in Black!''])
   \<and> generate_album_url_tui (\<lambda>s. 0) qobuz_modules ''tidal'' back_in_black =
      ''# Back in Black (1980) - AC/DC''"
proof -
  have h: "map_of qobuz_modules ''tidal'' = None \<or>
    (\<exists>ms. map_of qobuz_modules ''tidal'' = Some ms \<and> netlocation_constant ms = Netloc_list [])"
    by (simp add: qobuz_modules_def)
  have s: "safe_name ''Back in Black!'' = ''Back in Black''"
    by (simp add: safe_name_def strip_def isspace_def isalnum_def isalpha_def isdigit_def)
  have y: "str_int 1980 = ''1980''"
    by (simp add: str_int_def str_nat.simps digit_char_def)
  show ?thesis
    using generate_album_url_fallback[of qobuz_modules "''tidal''" "\<lambda>s. 0" back_in_black] h
    by (simp add: back_in_black_def s y)
qed

text \<open>
  The claim as written fails: the artist is not sanitized, so the line for an album of
  \<open>AC/DC\<close> holds a slash, and the menu selector prints a warning.
\<close>

theorem generate_album_url_counterexample:
  "generate_album_url (\<lambda>s. 0) qobuz_modules ''tidal'' back_in_black =
      (''# Back in Black (1980) - AC/DC'', [Warning_no_url ''Back in Black!''])
   \<and> CHR ''/'' \<in> set (fst (generate_album_url (\<lambda>s. 0) qobuz_modules ''tidal'' back_in_black))
   \<and> \<not> isalnum (CHR ''/'')"
  by (simp add: generate_album_url_def url_base_def qobuz_modules_def fallback_comment_def
      safe_name_def strip_def isspace_def isalnum_def isalpha_def isdigit_def
      back_in_black_def str_int_def str_nat.simps digit_char_def)

lemma album_id_of_tui_falsy: "\<not> truthy (album_id_of a) \<Longrightarrow> \<not> truthy (album_id_of_tui a)"
  by (auto simp: album_id_of_def album_id_of_tui_def split: option.splits)

lemma str_nat_nonempty: "str_nat n \<noteq> []"
  by (subst str_nat.simps) simp

lemma pseudo_id_eq: "pseudo_id hash a = take 10 (str_nat (nat \<bar>hash (hash_key a)\<bar>))"
  by (simp add: pseudo_id_def str_int_def)

lemma digit_char_isdigit: "d < 10 \<Longrightarrow> isdigit (digit_char d)"
proof -
  assume "d < 10"
  then have "d \<in> {0,1,2,3,4,5,6,7,8,9}" by auto
  then show ?thesis by (auto simp: digit_char_def isdigit_def)
qed

lemma str_nat_digits: "c \<in> set (str_nat n) \<Longrightarrow> isdigit c"
proof (induction n rule: str_nat.induct)
  case (1 n)
  show ?case
  proof (cases "n < 10")
    case True
    then show ?thesis using 1(2) by (simp add: str_nat.simps[of n] digit_char_isdigit)
  next
    case False
    then show ?thesis using 1 by (auto simp: str_nat.simps[of n] digit_char_isdigit)
  qed
qed

lemma str_nat_length_le: "0 < k \<Longrightarrow> (length (str_nat n) \<le> k) = (n < 10 ^ k)"
proof (induction n arbitrary: k rule: str_nat.induct)
  case (1 n)
  show ?case
  proof (cases "n < 10")
    case True
    have "(10::nat) ^ 1 \<le> 10 ^ k" using 1(2) by (intro power_increasing) auto
    then have "n < 10 ^ k" using True by simp
    moreover have "length (str_nat n) = 1" using True by (simp add: str_nat.simps[of n])
    ultimately show ?thesis using 1(2) by simp
  next
    case False
    obtain j where k: "k = Suc j" using 1(2) by (cases k) auto
    show ?thesis
    proof (cases "j = 0")
      case True
      have "length (str_nat (n div 10)) \<noteq> 0" using str_nat_nonempty by simp
      then show ?thesis using False k True by (simp add: str_nat.simps[of n])
    next
      case jpos: False
      then have ih: "(length (str_nat (n div 10)) \<le> j) = (n div 10 < 10 ^ j)"
        using 1(1)[OF False, of j] by simp
      have "(n div 10 < 10 ^ j) = (n < 10 ^ Suc j)"
        by (simp add: div_less_iff_less_mult mult.commute)
      then show ?thesis using False k ih by (simp add: str_nat.simps[of n])
    qed
  qed
qed

text \<open>
  Claim C4, as the code has it. When the URL can be built and the album has no truthy
  identifier (for the menu selector: under \<open>album_id\<close>, \<open>id\<close>, \<open>albumId\<close> or
  \<open>albumID\<close>; for the terminal-UI selector: under \<open>album_id\<close> or \<open>id\<close>), the URL ends
  with the pseudo-identifier: the first ten characters of the decimal form of the
  absolute hash value. It is a non-empty string of at most ten decimal digits, and has
  exactly ten digits if and only if the absolute hash value is at least \<open>10 ^ 9\<close>. For
  one hash function (one process) it is the same for all albums that agree on name,
  artist and year.
\<close>

theorem pseudo_id_shape:
  assumes "url_base settings module_name = Inr base"
  shows "(\<not> truthy (album_id_of a) \<longrightarrow>
        fst (generate_album_url hash settings module_name a) = base @ pseudo_id hash a)
    \<and> (\<not> truthy (album_id_of_tui a) \<longrightarrow>
        generate_album_url_tui hash settings module_name a = base @ pseudo_id hash a)
    \<and> pseudo_id hash a \<noteq> []
    \<and> length (pseudo_id hash a) \<le> 10
    \<and> (\<forall>c \<in> set (pseudo_id hash a). isdigit c)
    \<and> (length (pseudo_id hash a) = 10) = (10 ^ 9 \<le> \<bar>hash (hash_key a)\<bar>)
    \<and> (name b = name a \<and> artist b = artist a \<and> release_year b = release_year a \<longrightarrow>
        pseudo_id hash b = pseudo_id hash a)"
proof -
  let ?n = "nat \<bar>hash (hash_key a)\<bar>"
  have p: "pseudo_id hash a = take 10 (str_nat ?n)" by (rule pseudo_id_eq)
  have u1: "\<not> truthy (album_id_of a) \<longrightarrow>
      fst (generate_album_url hash settings module_name a) = base @ pseudo_id hash a"
    using assms by (simp add: generate_album_url_def id_text_def)
  have u2: "\<not> truthy (album_id_of_tui a) \<longrightarrow>
      generate_album_url_tui hash settings module_name a = base @ pseudo_id hash a"
    using assms by (simp add: generate_album_url_tui_def id_text_def)
  have ne: "pseudo_id hash a \<noteq> []" using str_nat_nonempty by (simp add: p)
  have le: "length (pseudo_id hash a) \<le> 10" by (simp add: p)
  have dg: "\<forall>c \<in> set (pseudo_id hash a). isdigit c"
    using str_nat_digits by (auto simp: p dest: in_set_takeD)
  have "(length (str_nat ?n) \<le> 9) = (?n < 10 ^ 9)"
    using str_nat_length_le[of 9 ?n] by simp
  then have "(10 \<le> length (str_nat ?n)) = (10 ^ 9 \<le> ?n)" by auto
  moreover have "(10 ^ 9 \<le> ?n) = (10 ^ 9 \<le> \<bar>hash (hash_key a)\<bar>)" by auto
  ultimately have ten: "(length (pseudo_id hash a) = 10) = (10 ^ 9 \<le> \<bar>hash (hash_key a)\<bar>)"
    by (auto simp: p min_def)
  have same: "name b = name a \<and> artist b = artist a \<and> release_year b = release_year a \<longrightarrow>
      pseudo_id hash b = pseudo_id hash a"
    by (simp add: pseudo_id_def hash_key_def)
  show ?thesis using u1 u2 ne le dg ten same by blast
qed

theorem pseudo_id_shape_witness:
  "fst (generate_album_url (\<lambda>s. - 1234567890123) qobuz_modules ''qobuz'' back_in_black)
      = ''https://play.qobuz.com/album/1234567890''
   \<and> generate_album_url_tui (\<lambda>s. - 1234567890123) qobuz_modules ''qobuz'' back_in_black
      = ''https://play.qobuz.com/album/1234567890''
   \<and> pseudo_id (\<lambda>s. - 1234567890123) back_in_black_remaster = ''1234567890''"
proof -
  have b: "url_base qobuz_modules ''qobuz'' = Inr ''https://play.qobuz.com/album/''"
    by (simp add: url_base_def qobuz_modules_def first_netloc_def domain_mapping_def
        album_path_of_def)
  have f: "\<not> truthy (album_id_of back_in_black)"
    by (simp add: album_id_of_def stored_album_id_def back_in_black_def)
  have e: "name back_in_black_remaster = name back_in_black"
    "artist back_in_black_remaster = artist back_in_black"
    "release_year back_in_black_remaster = release_year back_in_black"
    by (simp_all add: back_in_black_remaster_def back_in_black_def)
  have v: "pseudo_id (\<lambda>s. - 1234567890123) back_in_black = ''1234567890''"
    by (simp add: pseudo_id_def str_int_def str_nat.simps digit_char_def)
  show ?thesis
    using pseudo_id_shape[OF b, of back_in_black "\<lambda>s. - 1234567890123" back_in_black_remaster]
      f album_id_of_tui_falsy[OF f] e
    by (simp add: v)
qed

text \<open>
  The claim as written fails: a hash value below \<open>10 ^ 9\<close> in absolute value gives fewer
  than ten digits, since the code truncates and never pads.
\<close>

theorem pseudo_id_counterexample:
  "pseudo_id (\<lambda>s. 42) back_in_black = ''42''
   \<and> fst (generate_album_url (\<lambda>s. 42) qobuz_modules ''qobuz'' back_in_black)
       = ''https://play.qobuz.com/album/42''
   \<and> generate_album_url_tui (\<lambda>s. 42) qobuz_modules ''qobuz'' back_in_black
       = ''https://play.qobuz.com/album/42''"
  by (simp add: generate_album_url_def generate_album_url_tui_def url_base_def
      qobuz_modules_def first_netloc_def domain_mapping_def album_path_of_def id_text_def
      album_id_of_def album_id_of_tui_def stored_album_id_def back_in_black_def pseudo_id_def
      str_int_def str_nat.simps digit_char_def)

section \<open>Properties of loading a links file\<close>

lemma is_url_line_iff: "is_url_line line = startswith line ''http''"
proof (cases line)
  case Nil
  then show ?thesis by (simp add: is_url_line_def startswith_def)
next
  case (Cons c cs)
  then show ?thesis by (auto simp: is_url_line_def startswith_def)
qed

lemma load_urls_Cons: "load_urls (l # ls) urls = load_urls ls (load_urls_step urls l)"
  by (simp add: load_urls_def)

lemma load_urls_Nil: "load_urls [] urls = urls"
  by (simp add: load_urls_def)

lemma load_loop_urls:
  "album_urls (fst (load_loop r ls st n)) = load_urls ls (album_urls st)"
  by (induction ls arbitrary: st n) (simp_all add: load_urls_Nil load_urls_Cons load_urls_step_def Let_def)

lemma load_loop_tui_urls:
  "album_urls (fst (load_loop_tui ls st n)) = load_urls ls (album_urls st)"
  by (induction ls arbitrary: st n) (simp_all add: load_urls_Nil load_urls_Cons load_urls_step_def Let_def)

lemma load_loop_tui_count:
  "snd (load_loop_tui ls st n) + length (album_urls st) =
   n + length (album_urls (fst (load_loop_tui ls st n)))"
proof (induction ls arbitrary: st n)
  case Nil
  then show ?case by simp
next
  case (Cons l ls)
  let ?st1 = "st\<lparr>album_urls := album_urls st @ [strip l],
                  selected_albums := selected_albums st @ [unknown_album (strip l)]\<rparr>"
  show ?case
  proof (cases "is_url_line (strip l) \<and> strip l \<notin> set (album_urls st)")
    case True
    then have "load_loop_tui (l # ls) st n = load_loop_tui ls ?st1 (n + 1)"
      by (simp add: Let_def)
    then show ?thesis using Cons.IH[of ?st1 "n + 1"] by simp
  next
    case False
    then have "load_loop_tui (l # ls) st n = load_loop_tui ls st n"
      by (auto simp: Let_def)
    then show ?thesis using Cons.IH[of st n] by simp
  qed
qed

lemma load_urls_new:
  "\<exists>new. load_urls ls urls = urls @ new \<and> distinct new \<and>
     set new = {strip l |l. l \<in> set ls \<and> is_url_line (strip l)} - set urls"
proof (induction ls arbitrary: urls)
  case Nil
  then show ?case by (simp add: load_urls_Nil)
next
  case (Cons l ls)
  let ?line = "strip l"
  show ?case
  proof (cases "is_url_line ?line \<and> ?line \<notin> set urls")
    case True
    then have s: "load_urls_step urls l = urls @ [?line]" by (simp add: load_urls_step_def)
    obtain new where n: "load_urls ls (urls @ [?line]) = (urls @ [?line]) @ new" "distinct new"
      "set new = {strip l |l. l \<in> set ls \<and> is_url_line (strip l)} - set (urls @ [?line])"
      using Cons.IH[of "urls @ [?line]"] by blast
    have "load_urls (l # ls) urls = urls @ (?line # new)"
      using n(1) s by (simp add: load_urls_Cons)
    moreover have "distinct (?line # new)" using n(2,3) by auto
    moreover have "set (?line # new) =
        {strip l' |l'. l' \<in> set (l # ls) \<and> is_url_line (strip l')} - set urls"
      using n(3) True by auto
    ultimately show ?thesis by blast
  next
    case False
    then have s: "load_urls_step urls l = urls" by (auto simp: load_urls_step_def)
    obtain new where n: "load_urls ls urls = urls @ new" "distinct new"
      "set new = {strip l |l. l \<in> set ls \<and> is_url_line (strip l)} - set urls"
      using Cons.IH[of urls] by blast
    have "load_urls (l # ls) urls = urls @ new" using n(1) s by (simp add: load_urls_Cons)
    moreover have "set new = {strip l' |l'. l' \<in> set (l # ls) \<and> is_url_line (strip l')} - set urls"
      using n(3) False by auto
    ultimately show ?thesis using n(2) by blast
  qed
qed

lemma load_loop_known:
  "\<forall>l \<in> set ls. is_url_line (strip l) \<longrightarrow> strip l \<in> set (album_urls st) \<Longrightarrow>
   load_loop r ls st n = (st, n)"
  by (induction ls arbitrary: st n) (simp_all add: Let_def)

lemma load_loop_tui_known:
  "\<forall>l \<in> set ls. is_url_line (strip l) \<longrightarrow> strip l \<in> set (album_urls st) \<Longrightarrow>
   load_loop_tui ls st n = (st, n)"
  by (induction ls arbitrary: st n) (simp_all add: Let_def)

lemma load_urls_covers:
  "l \<in> set ls \<Longrightarrow> is_url_line (strip l) \<Longrightarrow> strip l \<in> set (load_urls ls urls)"
proof -
  assume a: "l \<in> set ls" "is_url_line (strip l)"
  obtain new where n: "load_urls ls urls = urls @ new"
      "set new = {strip l |l. l \<in> set ls \<and> is_url_line (strip l)} - set urls"
    using load_urls_new[of ls urls] by blast
  show ?thesis
  proof (cases "strip l \<in> set urls")
    case True
    then show ?thesis by (simp add: n(1))
  next
    case False
    then have "strip l \<in> set new" using a n(2) by blast
    then show ?thesis by (simp add: n(1))
  qed
qed

lemma distinct_singleton_set: "set xs = {x} \<Longrightarrow> distinct xs \<Longrightarrow> xs = [x]"
proof (cases xs)
  case Nil
  assume "set xs = {x}"
  then show ?thesis using Nil by simp
next
  case (Cons y ys)
  assume a: "set xs = {x}" "distinct xs"
  then have "y = x" "set ys \<subseteq> {x}" "y \<notin> set ys" using Cons by auto
  then have "ys = []" by (cases ys) auto
  then show ?thesis using Cons \<open>y = x\<close> by simp
qed

text \<open>
  Claim C8. Let the answer name a readable file with lines \<open>lines\<close>. In both selectors
  the URL list grows by a list \<open>new\<close> without repetitions whose elements are exactly the
  stripped lines that start with \<open>http\<close> and were not in the URL list. For a file of
  one \<open>http\<close> line and one \<open>#\<close> line (in either order) whose URL is not yet listed,
  \<open>new\<close> is that one URL. Loading the same file again from the resulting state changes
  nothing and reports zero loaded entries.
\<close>

theorem load_existing_file_urls:
  assumes "strip answer \<noteq> []" and "files (strip answer) = Some (Lines lines)"
  shows "\<exists>new st1 st2 n.
      load_existing_file urlparse_raises files answer st =
        (st1, [Loaded n, Total_now (length (album_urls st) + length new)])
    \<and> load_existing_file_tui files answer st =
        (st2, [Loaded (length new), Total_now (length (album_urls st) + length new)])
    \<and> album_urls st1 = album_urls st @ new
    \<and> album_urls st2 = album_urls st @ new
    \<and> distinct new
    \<and> set new = {strip l |l. l \<in> set lines \<and> startswith (strip l) ''http''} - set (album_urls st)
    \<and> ((lines = [h, c] \<or> lines = [c, h]) \<and> startswith (strip h) ''http''
          \<and> startswith (strip c) ''#'' \<and> strip h \<notin> set (album_urls st)
        \<longrightarrow> new = [strip h])
    \<and> load_existing_file urlparse_raises files answer st1 =
        (st1, [Loaded 0, Total_now (length (album_urls st1))])
    \<and> load_existing_file_tui files answer st2 =
        (st2, [Loaded 0, Total_now (length (album_urls st2))])"
proof -
  obtain st1 n where l1: "load_loop urlparse_raises lines st 0 = (st1, n)"
    by (cases "load_loop urlparse_raises lines st 0") auto
  obtain st2 m where l2: "load_loop_tui lines st 0 = (st2, m)"
    by (cases "load_loop_tui lines st 0") auto
  obtain new where new: "load_urls lines (album_urls st) = album_urls st @ new" "distinct new"
      "set new = {strip l |l. l \<in> set lines \<and> is_url_line (strip l)} - set (album_urls st)"
    using load_urls_new[of lines "album_urls st"] by blast
  have u1: "album_urls st1 = album_urls st @ new"
    using load_loop_urls[of urlparse_raises lines st 0] l1 new(1) by simp
  have u2: "album_urls st2 = album_urls st @ new"
    using load_loop_tui_urls[of lines st 0] l2 new(1) by simp
  have m: "m = length new"
    using load_loop_tui_count[of lines st 0] l2 u2 by simp
  have r1: "load_existing_file urlparse_raises files answer st =
        (st1, [Loaded n, Total_now (length (album_urls st) + length new)])"
    using assms l1 u1 by (simp add: load_existing_file_def)
  have r2: "load_existing_file_tui files answer st =
        (st2, [Loaded (length new), Total_now (length (album_urls st) + length new)])"
    using assms l2 u2 m by (simp add: load_existing_file_tui_def)
  have s: "set new = {strip l |l. l \<in> set lines \<and> startswith (strip l) ''http''} - set (album_urls st)"
    using new(3) by (simp add: is_url_line_iff)
  have one: "(lines = [h, c] \<or> lines = [c, h]) \<and> startswith (strip h) ''http''
          \<and> startswith (strip c) ''#'' \<and> strip h \<notin> set (album_urls st)
        \<longrightarrow> new = [strip h]"
  proof
    assume a: "(lines = [h, c] \<or> lines = [c, h]) \<and> startswith (strip h) ''http''
          \<and> startswith (strip c) ''#'' \<and> strip h \<notin> set (album_urls st)"
    then have "\<not> startswith (strip c) ''http''"
      by (cases "strip c") (auto simp: startswith_def)
    then have "set new = {strip h}" using s a by auto
    then show "new = [strip h]" using new(2) by (rule distinct_singleton_set)
  qed
  have k1: "\<forall>l \<in> set lines. is_url_line (strip l) \<longrightarrow> strip l \<in> set (album_urls st1)"
    using load_urls_covers[of _ lines "album_urls st"] u1 new(1) by simp
  have k2: "\<forall>l \<in> set lines. is_url_line (strip l) \<longrightarrow> strip l \<in> set (album_urls st2)"
    using load_urls_covers[of _ lines "album_urls st"] u2 new(1) by simp
  have a1: "load_existing_file urlparse_raises files answer st1 =
        (st1, [Loaded 0, Total_now (length (album_urls st1))])"
    using assms load_loop_known[OF k1, of urlparse_raises 0] by (simp add: load_existing_file_def)
  have a2: "load_existing_file_tui files answer st2 =
        (st2, [Loaded 0, Total_now (length (album_urls st2))])"
    using assms load_loop_tui_known[OF k2, of 0] by (simp add: load_existing_file_tui_def)
  from r1 r2 u1 u2 new(2) s one a1 a2 show ?thesis
    by - (rule exI[of _ new], rule exI[of _ st1], rule exI[of _ st2], rule exI[of _ n],
        (intro conjI; assumption))
qed

theorem load_existing_file_urls_witness:
  "album_urls (fst (load_existing_file invalid_ipv6_url links_file ''album_links.txt'' empty_selector))
      = [''https://play.qobuz.com/album/1'']
   \<and> album_urls (fst (load_existing_file_tui links_file ''album_links.txt'' empty_selector))
      = [''https://play.qobuz.com/album/1'']"
proof -
  let ?h = "''https://play.qobuz.com/album/1'' @ [CHR 0x0A]" and ?c = "''# a comment'' @ [CHR 0x0A]"
  have h1: "strip ''album_links.txt'' \<noteq> []" by (simp add: strip_def isspace_def)
  have h2: "links_file (strip ''album_links.txt'') = Some (Lines [?h, ?c])"
    by (simp add: links_file_def strip_def isspace_def)
  have sh: "strip ?h = ''https://play.qobuz.com/album/1''" and sc: "strip ?c = ''# a comment''"
    by (simp_all add: strip_def isspace_def)
  have p: "([?h, ?c] = [?h, ?c] \<or> [?h, ?c] = [?c, ?h]) \<and> startswith (strip ?h) ''http''
      \<and> startswith (strip ?c) ''#'' \<and> strip ?h \<notin> set (album_urls empty_selector)"
    by (simp add: strip_def isspace_def startswith_def empty_selector_def)
  obtain new st1 st2 n where r:
      "load_existing_file invalid_ipv6_url links_file ''album_links.txt'' empty_selector =
        (st1, [Loaded n, Total_now (length (album_urls empty_selector) + length new)])"
      "load_existing_file_tui links_file ''album_links.txt'' empty_selector =
        (st2, [Loaded (length new), Total_now (length (album_urls empty_selector) + length new)])"
      "album_urls st1 = album_urls empty_selector @ new"
      "album_urls st2 = album_urls empty_selector @ new"
      "([?h, ?c] = [?h, ?c] \<or> [?h, ?c] = [?c, ?h]) \<and> startswith (strip ?h) ''http''
          \<and> startswith (strip ?c) ''#'' \<and> strip ?h \<notin> set (album_urls empty_selector)
        \<longrightarrow> new = [strip ?h]"
    using load_existing_file_urls[where files = links_file and answer = "''album_links.txt''"
        and lines = "[?h, ?c]" and urlparse_raises = invalid_ipv6_url and st = empty_selector
        and h = ?h and c = ?c, OF h1 h2]
    by blast
  have "new = [''https://play.qobuz.com/album/1'']" using r(5) p sh by simp
  then show ?thesis using r(1-4) by (simp add: empty_selector_def)
qed

section \<open>The two lists in step\<close>

lemma pop_None_length: "length xs = length ys \<Longrightarrow> (pop xs i = None) = (pop ys i = None)"
  by (simp add: pop_def Let_def)

lemma pop_length: "pop xs i = Some (x, xs') \<Longrightarrow> Suc (length xs') = length xs"
  by (auto simp: pop_def Let_def split: if_splits)

lemma remove_loop_lockstep:
  "lockstep st \<Longrightarrow> lockstep (fst (snd (remove_loop idxs st out)))"
proof (induction idxs arbitrary: st out)
  case Nil
  then show ?case by simp
next
  case (Cons i idxs)
  show ?case
  proof (cases "pop (selected_albums st) i")
    case None
    then show ?thesis using Cons.prems by simp
  next
    case (Some p)
    obtain x sa where p: "p = (x, sa)" by (cases p)
    have "pop (album_urls st) i \<noteq> None"
      using Some Cons.prems pop_None_length[of "selected_albums st" "album_urls st" i]
      by (simp add: lockstep_def)
    then obtain u au where q: "pop (album_urls st) i = Some (u, au)" by auto
    have "length sa = length au"
      using pop_length[of "selected_albums st" i x sa] pop_length[OF q] Some p Cons.prems
      by (simp add: lockstep_def)
    then have "lockstep (st\<lparr>selected_albums := sa, album_urls := au\<rparr>)"
      by (simp add: lockstep_def)
    then show ?thesis using Cons.IH Some p q by simp
  qed
qed

lemma remove_loop_tui_lockstep:
  "lockstep st \<Longrightarrow> lockstep (fst (snd (remove_loop_tui idxs st c)))"
proof (induction idxs arbitrary: st c)
  case Nil
  then show ?case by simp
next
  case (Cons i idxs)
  show ?case
  proof (cases "pop (selected_albums st) i")
    case None
    then show ?thesis using Cons.prems by simp
  next
    case (Some p)
    obtain x sa where p: "p = (x, sa)" by (cases p)
    have "pop (album_urls st) i \<noteq> None"
      using Some Cons.prems pop_None_length[of "selected_albums st" "album_urls st" i]
      by (simp add: lockstep_def)
    then obtain u au where q: "pop (album_urls st) i = Some (u, au)" by auto
    have "length sa = length au"
      using pop_length[of "selected_albums st" i x sa] pop_length[OF q] Some p Cons.prems
      by (simp add: lockstep_def)
    then have "lockstep (st\<lparr>selected_albums := sa, album_urls := au\<rparr>)"
      by (simp add: lockstep_def)
    then show ?thesis using Cons.IH Some p q by simp
  qed
qed

lemma remove_command_lockstep:
  "lockstep st \<Longrightarrow> lockstep (fst (snd (remove_command choice st)))"
proof -
  assume l: "lockstep st"
  let ?c = "collect_indices (length (selected_albums st)) (tl (split choice)) [] []"
  obtain r out where c: "?c = (r, out)" by (cases ?c)
  show ?thesis
  proof (cases r)
    case None
    then show ?thesis using c l by (simp add: remove_command_def)
  next
    case (Some idxs)
    obtain b st' out' where r: "remove_loop (rev (sort idxs)) st out = (b, st', out')"
      by (cases "remove_loop (rev (sort idxs)) st out") auto
    have "lockstep st'" using remove_loop_lockstep[OF l, of "rev (sort idxs)" out] r by simp
    then show ?thesis using c Some r by (cases b) (simp_all add: remove_command_def)
  qed
qed

lemma remove_albums_tui_lockstep:
  "lockstep st \<Longrightarrow> lockstep (fst (remove_albums_tui command st))"
proof -
  assume l: "lockstep st"
  let ?c = "collect_indices_tui (length (selected_albums st)) (tl (split command)) []"
  show ?thesis
  proof (cases ?c)
    case Scan_ValueError
    then show ?thesis using l by (simp add: remove_albums_tui_def)
  next
    case (Scan_Invalid t)
    then show ?thesis using l by (simp add: remove_albums_tui_def)
  next
    case (Scan_Ok idxs)
    obtain b st' k where r: "remove_loop_tui (rev (sort idxs)) st 0 = (b, st', k)"
      by (cases "remove_loop_tui (rev (sort idxs)) st 0") auto
    have "lockstep st'" using remove_loop_tui_lockstep[OF l, of "rev (sort idxs)" 0] r by simp
    then show ?thesis using Scan_Ok r by (cases b) (simp_all add: remove_albums_tui_def)
  qed
qed

lemma show_selected_command_lockstep:
  "lockstep st \<Longrightarrow> lockstep (fst (snd (show_selected_command choice st)))"
  using remove_command_lockstep[of st choice]
  by (simp add: show_selected_command_def lockstep_def)

lemma show_selected_command_tui_lockstep:
  "lockstep st \<Longrightarrow> lockstep (fst (snd (show_selected_command_tui choice confirm st)))"
proof -
  assume l: "lockstep st"
  obtain st' out where r: "remove_albums_tui choice st = (st', out)"
    by (cases "remove_albums_tui choice st")
  have "lockstep st'" using remove_albums_tui_lockstep[OF l, of choice] r by simp
  then show ?thesis using l r by (simp add: show_selected_command_tui_def lockstep_def)
qed

lemma command_loop_lockstep:
  "lockstep st \<Longrightarrow> lockstep (fst (command_loop answers st out))"
proof (induction answers arbitrary: st out)
  case Nil
  then show ?case by simp
next
  case (Cons answer answers)
  obtain b st' out' where r: "show_selected_command (lower (strip answer)) st = (b, st', out')"
    by (cases "show_selected_command (lower (strip answer)) st") auto
  have "lockstep st'"
    using show_selected_command_lockstep[OF Cons.prems, of "lower (strip answer)"] r by simp
  then show ?case using Cons.IH r by (cases b) simp_all
qed

lemma command_loop_tui_lockstep:
  "lockstep st \<Longrightarrow> lockstep (fst (command_loop_tui answers st out))"
proof (induction answers arbitrary: st out)
  case Nil
  then show ?case by simp
next
  case (Cons ac answers)
  obtain answer confirm where ac: "ac = (answer, confirm)" by (cases ac)
  let ?choice = "lower (strip (if answer = [] then ''back'' else answer))"
  obtain b st' out' where r: "show_selected_command_tui ?choice confirm st = (b, st', out')"
    by (cases "show_selected_command_tui ?choice confirm st") auto
  have "lockstep st'"
    using show_selected_command_tui_lockstep[OF Cons.prems, of ?choice confirm] r by simp
  then show ?case using Cons.IH r ac by (cases b) simp_all
qed

lemma add_loop_lockstep:
  "lockstep st \<Longrightarrow> lockstep (fst (add_loop h s m ar albums st out))"
proof (induction albums arbitrary: st out)
  case Nil
  then show ?case by simp
next
  case (Cons a albums)
  obtain url warn where g: "generate_album_url h s m a = (url, warn)"
    by (cases "generate_album_url h s m a")
  let ?st2 = "st\<lparr>selected_albums := selected_albums st @ [new_selection m ar a],
                 album_urls := album_urls st @ [url]\<rparr>"
  have "lockstep ?st2" using Cons.prems by (simp add: lockstep_def)
  then show ?case using Cons.IH[of ?st2] g by (simp add: Let_def)
qed

lemma add_loop_tui_lockstep:
  "lockstep st \<Longrightarrow> lockstep (add_loop_tui h s m ar albums st)"
proof (induction albums arbitrary: st)
  case Nil
  then show ?case by simp
next
  case (Cons a albums)
  let ?st2 = "st\<lparr>selected_albums := selected_albums st @ [new_selection m ar a],
                 album_urls := album_urls st @ [generate_album_url_tui h s m a]\<rparr>"
  have "lockstep ?st2" using Cons.prems by (simp add: lockstep_def)
  then show ?case using Cons.IH[of ?st2] by (simp add: Let_def)
qed

lemma load_loop_tui_lockstep:
  "lockstep st \<Longrightarrow> lockstep (fst (load_loop_tui ls st n))"
proof (induction ls arbitrary: st n)
  case Nil
  then show ?case by simp
next
  case (Cons l ls)
  let ?st1 = "st\<lparr>album_urls := album_urls st @ [strip l],
                  selected_albums := selected_albums st @ [unknown_album (strip l)]\<rparr>"
  have "lockstep ?st1" using Cons.prems by (simp add: lockstep_def)
  then show ?case using Cons.IH[of ?st1] Cons.IH[of st] Cons.prems by (simp add: Let_def)
qed

lemma load_loop_lockstep:
  "\<forall>l. \<not> r l \<Longrightarrow> lockstep st \<Longrightarrow> lockstep (fst (load_loop r ls st n))"
proof (induction ls arbitrary: st n)
  case Nil
  then show ?case by simp
next
  case (Cons l ls)
  let ?st1 = "st\<lparr>album_urls := album_urls st @ [strip l],
                  selected_albums := selected_albums st @ [unknown_album (strip l)]\<rparr>"
  have "lockstep ?st1" using Cons.prems by (simp add: lockstep_def)
  then show ?case using Cons.IH[of ?st1] Cons.IH[of st] Cons.prems by (simp add: Let_def)
qed

lemma apply_operation_tui_lockstep:
  "lockstep st \<Longrightarrow> lockstep (apply_operation_tui env st op)"
proof (cases op)
  case (Add_albums m albums ar)
  assume "lockstep st"
  then show ?thesis using Add_albums add_loop_tui_lockstep
    by (simp add: add_selected_albums_tui_def Let_def)
next
  case (View answers)
  assume l: "lockstep st"
  then show ?thesis using View command_loop_tui_lockstep
    by (simp add: show_selected_albums_tui_def)
next
  case (Load_file answer)
  assume l: "lockstep st"
  show ?thesis
  proof (cases "env_files env (strip answer)")
    case None
    then show ?thesis using Load_file l by (simp add: load_existing_file_tui_def Let_def)
  next
    case (Some fc)
    show ?thesis
    proof (cases fc)
      case Unreadable
      then show ?thesis using Load_file l Some by (simp add: load_existing_file_tui_def Let_def)
    next
      case (Lines ls)
      obtain st' k where r: "load_loop_tui ls st 0 = (st', k)" by (cases "load_loop_tui ls st 0")
      have "lockstep st'" using load_loop_tui_lockstep[OF l, of ls 0] r by simp
      then show ?thesis using Load_file l Some Lines r
        by (simp add: load_existing_file_tui_def Let_def)
    qed
  qed
qed

lemma apply_operation_lockstep:
  assumes "\<forall>l. \<not> env_urlparse_raises env l" and l: "lockstep st"
  shows "lockstep (apply_operation env st op)"
proof (cases op)
  case (Add_albums m albums ar)
  obtain st' out where r: "add_loop (env_hash env) (env_settings env) m ar albums st
      [Adding (length albums) ar] = (st', out)"
    by (cases "add_loop (env_hash env) (env_settings env) m ar albums st [Adding (length albums) ar]")
  have "lockstep st'" using add_loop_lockstep[OF l] r by (metis fst_conv)
  then show ?thesis using Add_albums l r
    by (simp add: add_selected_albums_def Let_def)
next
  case (View answers)
  then show ?thesis using l command_loop_lockstep
    by (simp add: show_selected_albums_def)
next
  case (Load_file answer)
  show ?thesis
  proof (cases "env_files env (strip answer)")
    case None
    then show ?thesis using Load_file l by (simp add: load_existing_file_def Let_def)
  next
    case (Some fc)
    show ?thesis
    proof (cases fc)
      case Unreadable
      then show ?thesis using Load_file l Some by (simp add: load_existing_file_def Let_def)
    next
      case (Lines ls)
      obtain st' k where r: "load_loop (env_urlparse_raises env) ls st 0 = (st', k)"
        by (cases "load_loop (env_urlparse_raises env) ls st 0")
      have "lockstep st'" using load_loop_lockstep[OF assms(1) l, of ls 0] r by simp
      then show ?thesis using Load_file l Some Lines r
        by (simp add: load_existing_file_def Let_def)
    qed
  qed
qed

text \<open>
  The terminal-UI selector keeps the two lists equally long over every sequence of
  operations. The menu selector does so as long as \<open>urlparse\<close> raises on no line.
\<close>

theorem lockstep_tui:
  "lockstep st \<Longrightarrow> lockstep (foldl (apply_operation_tui env) st ops)"
  by (induction ops arbitrary: st) (simp_all add: apply_operation_tui_lockstep)

theorem lockstep_menu:
  "\<forall>l. \<not> env_urlparse_raises env l \<Longrightarrow> lockstep st \<Longrightarrow>
   lockstep (foldl (apply_operation env) st ops)"
  by (induction ops arbitrary: st) (simp_all add: apply_operation_lockstep)

text \<open>
  Claim C2 fails in the menu selector: \<open>load_existing_file\<close> appends the line to the URL
  list before the \<open>try\<close> block, and when \<open>urlparse\<close> raises inside it the record is
  not appended. Loading a file whose only line is \<open>http://[\<close> into an empty selection
  leaves one URL and no record. The terminal-UI selector appends both.
\<close>

theorem load_breaks_lockstep:
  "load_existing_file invalid_ipv6_url bad_links_file ''album_links.txt'' empty_selector =
     (\<lparr>selected_albums = [], album_urls = [''http://['']\<rparr>, [Loaded 0, Total_now 1])
   \<and> \<not> lockstep (foldl (apply_operation bad_env) empty_selector [Load_file ''album_links.txt''])
   \<and> load_existing_file_tui bad_links_file ''album_links.txt'' empty_selector =
     (\<lparr>selected_albums = [unknown_album ''http://[''], album_urls = [''http://['']\<rparr>,
      [Loaded 1, Total_now 1])"
  by (simp add: load_existing_file_def load_existing_file_tui_def bad_links_file_def
      bad_env_def lockstep_def Let_def
      invalid_ipv6_url_def after_scheme_def scheme_char_def isalnum_def isalpha_def isdigit_def
      empty_selector_def strip_def isspace_def is_url_line_def startswith_def)

section \<open>Properties of the size format\<close>

lemma format_size_loop_unit:
  "k < length us \<Longrightarrow> x / 1024 ^ k < 1024 \<Longrightarrow> \<forall>j<k. 1024 \<le> x / 1024 ^ j \<Longrightarrow>
   format_size_loop x us = format_1f (x / 1024 ^ k) @ '' '' @ us ! k"
proof (induction us arbitrary: x k)
  case Nil
  then show ?case by simp
next
  case (Cons u us)
  show ?case
  proof (cases k)
    case 0
    then show ?thesis using Cons.prems by simp
  next
    case (Suc k')
    have "1024 \<le> x / 1024 ^ 0" using Cons.prems(3) Suc by blast
    then have big: "\<not> x < 1024" by simp
    have a: "k' < length us" using Cons.prems(1) Suc by simp
    have b: "x / 1024 / 1024 ^ k' < 1024" using Cons.prems(2) Suc by (simp add: field_simps)
    have c: "\<forall>j<k'. 1024 \<le> x / 1024 / 1024 ^ j"
    proof (intro allI impI)
      fix j assume "j < k'"
      then have "Suc j < k" using Suc by simp
      then have "1024 \<le> x / 1024 ^ Suc j" using Cons.prems(3) by blast
      then show "1024 \<le> x / 1024 / 1024 ^ j" by (simp add: field_simps)
    qed
    have "format_size_loop (x / 1024) us = format_1f (x / 1024 / 1024 ^ k') @ '' '' @ us ! k'"
      using Cons.IH[OF a b c] .
    moreover have "x / 1024 / 1024 ^ k' = x / 1024 ^ k" using Suc by (simp add: field_simps)
    ultimately show ?thesis using big Suc by simp
  qed
qed

lemma format_size_loop_largest:
  "\<forall>j<length us. 1024 \<le> x / 1024 ^ j \<Longrightarrow>
   format_size_loop x us = format_1f (x / 1024 ^ length us) @ '' PB''"
proof (induction us arbitrary: x)
  case Nil
  then show ?case by simp
next
  case (Cons u us)
  have "1024 \<le> x / 1024 ^ 0" using Cons.prems by blast
  then have big: "\<not> x < 1024" by simp
  have c: "\<forall>j<length us. 1024 \<le> x / 1024 / 1024 ^ j"
  proof (intro allI impI)
    fix j assume "j < length us"
    then have "Suc j < length (u # us)" by simp
    then have "1024 \<le> x / 1024 ^ Suc j" using Cons.prems by blast
    then show "1024 \<le> x / 1024 / 1024 ^ j" by (simp add: field_simps)
  qed
  have "format_size_loop (x / 1024) us = format_1f (x / 1024 / 1024 ^ length us) @ '' PB''"
    using Cons.IH[OF c] .
  moreover have "x / 1024 / 1024 ^ length us = x / 1024 ^ length (u # us)"
    by (simp add: field_simps)
  ultimately show ?case using big by simp
qed

lemmas format_eval = format_size_def units_def format_1f_def round_half_even_def
  str_nat.simps digit_char_def

text \<open>
  Claim C7. \<open>format_size\<close> uses the first of the units B, KB, MB, GB, TB (index \<open>k\<close>)
  for which the count divided by \<open>1024 ^ k\<close> is below 1024, all smaller units leaving
  it at 1024 or more; when no unit does, it uses PB with the count divided by
  \<open>1024 ^ 5\<close>. The value is printed with one decimal. In particular 1023 gives
  \<open>1023.0 B\<close>, 1536 gives \<open>1.5 KB\<close> and \<open>1024 ^ 4\<close> gives \<open>1.0 TB\<close>.
\<close>

theorem format_size_smallest_unit:
  "(k < 5 \<and> of_nat n / 1024 ^ k < (1024 :: rat) \<and> (\<forall>j<k. (1024 :: rat) \<le> of_nat n / 1024 ^ j)
      \<longrightarrow> format_size n = format_1f (of_nat n / 1024 ^ k) @ '' '' @ units ! k)
   \<and> ((\<forall>j<5. (1024 :: rat) \<le> of_nat n / 1024 ^ j)
      \<longrightarrow> format_size n = format_1f (of_nat n / 1024 ^ 5) @ '' PB'')
   \<and> format_size 1023 = ''1023.0 B''
   \<and> format_size 1536 = ''1.5 KB''
   \<and> format_size (1024 ^ 4) = ''1.0 TB''"
proof -
  have len: "length units = 5" by (simp add: units_def)
  have a: "k < 5 \<and> of_nat n / 1024 ^ k < (1024 :: rat) \<and> (\<forall>j<k. (1024 :: rat) \<le> of_nat n / 1024 ^ j)
      \<longrightarrow> format_size n = format_1f (of_nat n / 1024 ^ k) @ '' '' @ units ! k"
    using format_size_loop_unit[of k units "of_nat n"] len by (simp add: format_size_def)
  have b: "(\<forall>j<5. (1024 :: rat) \<le> of_nat n / 1024 ^ j)
      \<longrightarrow> format_size n = format_1f (of_nat n / 1024 ^ 5) @ '' PB''"
    using format_size_loop_largest[of units "of_nat n"] len by (simp add: format_size_def)
  have c: "format_size 1023 = ''1023.0 B''" by (simp add: format_eval)
  have d: "format_size 1536 = ''1.5 KB''" by (simp add: format_eval)
  have e: "format_size (1024 ^ 4) = ''1.0 TB''" by (simp add: format_eval)
  show ?thesis using a b c d e by blast
qed

theorem format_size_smallest_unit_witness:
  "format_size 5242880 = ''5.0 MB'' \<and> format_size (3 * 1024 ^ 5) = ''3.0 PB''"
proof -
  have h1: "(2::nat) < 5 \<and> of_nat 5242880 / 1024 ^ 2 < (1024 :: rat)
      \<and> (\<forall>j<2. (1024 :: rat) \<le> of_nat 5242880 / 1024 ^ j)"
    by (simp add: less_Suc_eq numeral_2_eq_2)
  have h2: "\<forall>j<5. (1024 :: rat) \<le> of_nat (3 * 1024 ^ 5) / 1024 ^ j"
  proof (intro allI impI)
    fix j :: nat assume "j < 5"
    then have "j \<in> {0, 1, 2, 3, 4}" by auto
    then show "(1024 :: rat) \<le> of_nat (3 * 1024 ^ 5) / 1024 ^ j" by auto
  qed
  have r1: "format_size 5242880 = format_1f (of_nat 5242880 / 1024 ^ 2) @ '' '' @ units ! 2"
    using format_size_smallest_unit[of 2 5242880] h1 by blast
  have r2: "format_size (3 * 1024 ^ 5) = format_1f (of_nat (3 * 1024 ^ 5) / 1024 ^ 5) @ '' PB''"
    using format_size_smallest_unit[of 0 "3 * 1024 ^ 5"] h2 by blast
  have v1: "format_1f (of_nat 5242880 / 1024 ^ 2) = ''5.0''"
    by (simp add: format_1f_def round_half_even_def str_nat.simps digit_char_def)
  have v2: "format_1f (of_nat (3 * 1024 ^ 5) / 1024 ^ 5) = ''3.0''"
    by (simp add: format_1f_def round_half_even_def str_nat.simps digit_char_def)
  have u: "units ! 2 = ''MB''" by (simp add: units_def)
  show ?thesis unfolding r1 r2 v1 v2 u by simp
qed

section \<open>Properties of directory synchronization\<close>

lemma makedirs_parent_exists:
  "path_exists fs (dirname p) \<Longrightarrow> makedirs fresh p fs = mkdir fresh p fs"
  by (subst makedirs.simps) (simp add: Let_def)

lemma floor_rat_numeral:
  "\<lfloor>(numeral a :: rat) / numeral b\<rfloor> = numeral a div numeral b"
  using floor_divide_of_int_eq[of "numeral a" "numeral b", where ?'a = rat] by simp

lemma grows_refl: "grows fs fs n"
  by (simp add: grows_def)

lemma grows_trans: "grows fs fs1 m \<Longrightarrow> grows fs1 fs2 n \<Longrightarrow> m \<le> n \<Longrightarrow> grows fs fs2 n"
  unfolding grows_def by (metis le_trans)

lemma mkdir_grows: "mkdir fresh d fs = Inr fs1 \<Longrightarrow> grows fs fs1 (length d)"
proof -
  assume a: "mkdir fresh d fs = Inr fs1"
  show ?thesis
  proof (cases "path_exists fs d")
    case True
    then have "fs1 = fs" using a by (auto simp: mkdir_def split: if_splits)
    then show ?thesis by (simp add: grows_refl)
  next
    case False
    then have f: "fs1 = fs @ [(d, fresh)]" using a by (auto simp: mkdir_def split: if_splits)
    have "map_of fs d = None" using False by (simp add: path_exists_def)
    then show ?thesis unfolding grows_def f by (auto simp: map_add_def split: option.splits)
  qed
qed

lemma makedirs_grows: "makedirs fresh d fs = Inr fs1 \<Longrightarrow> grows fs fs1 (length d)"
proof (induction fresh d fs arbitrary: fs1 rule: makedirs.induct)
  case (1 fresh d fs)
  show ?case
  proof (cases "dirname d \<noteq> [] \<and> \<not> path_exists fs (dirname d)")
    case False
    then have "makedirs fresh d fs = mkdir fresh d fs"
      by (subst makedirs.simps) (auto simp: Let_def)
    then show ?thesis using "1.prems" mkdir_grows by simp
  next
    case True
    have len: "length (dirname d) \<le> length d" by (simp add: dirname_def)
    show ?thesis
    proof (cases "makedirs fresh (dirname d) fs")
      case (Inr fs0)
      then have "makedirs fresh d fs = mkdir fresh d fs0"
        using True by (subst makedirs.simps) (simp add: Let_def)
      then have m: "mkdir fresh d fs0 = Inr fs1" using "1.prems" by simp
      have "grows fs fs0 (length (dirname d))" using "1.IH"[OF refl True Inr] .
      then show ?thesis using mkdir_grows[OF m] len grows_trans by blast
    next
      case (Inl e)
      then have "makedirs fresh d fs = (if e = FileExistsError then mkdir fresh d fs else Inl e)"
        using True by (subst makedirs.simps) (cases e; simp add: Let_def)
      then have "mkdir fresh d fs = Inr fs1" using "1.prems" by (auto split: if_splits)
      then show ?thesis by (rule mkdir_grows)
    qed
  qed
qed

lemma relpath_nonempty: "relpath p start \<noteq> []"
  by (simp add: relpath_def Let_def)

lemma should_copy_cong:
  assumes "map_of fs1 src = map_of fs src" and "map_of fs1 dst = map_of fs dst"
  shows "should_copy fs1 src dst = should_copy fs src dst"
  unfolding should_copy_def path_exists_def getmtime_def getsize_def assms by (rule refl)

lemma should_copy_decision:
  "map_of fs src = Some s \<Longrightarrow> dst \<noteq> [] \<Longrightarrow>
   should_copy fs src dst =
     Inr (case map_of fs dst of
            None \<Rightarrow> True
          | Some d \<Rightarrow> st_mtime d < st_mtime s \<or> st_size d \<noteq> st_size s)"
  by (auto simp: should_copy_def path_exists_def getmtime_def getsize_def split: option.splits)

lemma grows_keeps: "grows fs fs1 n \<Longrightarrow> map_of fs p = Some v \<Longrightarrow> map_of fs1 p = Some v"
  unfolding grows_def by (metis option.distinct(1))

lemma grows_longer: "grows fs fs1 n \<Longrightarrow> n < length p \<Longrightarrow> map_of fs1 p = map_of fs p"
  unfolding grows_def by (metis not_le)

lemma dest_longer: "dest \<noteq> [] \<Longrightarrow> length (dirname dest) < length dest"
  by (simp add: dirname_def)

lemma join_relpath_nonempty: "join dest_base (relpath src_file src_base) \<noteq> []"
  by (simp add: join_def relpath_nonempty)

lemma copy_file_dry:
  assumes "map_of fs src_file = Some s"
  shows "copy_file_with_structure fresh src_file src_base dest_base True fs =
     Inr (copy_needed s (map_of fs (join dest_base (relpath src_file src_base))),
          relpath src_file src_base, fs)"
proof -
  let ?dest = "join dest_base (relpath src_file src_base)"
  have "should_copy fs src_file ?dest = Inr (copy_needed s (map_of fs ?dest))"
    using should_copy_decision[OF assms join_relpath_nonempty] by (simp add: copy_needed_def)
  then show ?thesis
    by (cases "copy_needed s (map_of fs ?dest)") (simp_all add: copy_file_with_structure_def Let_def)
qed

lemma copy2_target:
  assumes "copy2 src dst fs = Inr fs2" and "map_of fs src = Some s" and "\<not> isdir fs dst"
  shows "fs2 = AList.update dst s fs"
  using assms by (auto simp: copy2_def Let_def split: if_splits)

lemma copy2_keeps:
  assumes "copy2 src dst fs = Inr fs2" and "map_of fs p \<noteq> None"
  shows "map_of fs2 p \<noteq> None"
proof -
  obtain s t where "fs2 = AList.update t s fs"
    using assms(1) by (auto simp: copy2_def Let_def split: option.splits if_splits)
  then show ?thesis using assms(2) by (simp add: update_conv')
qed

lemma copy_file_real:
  assumes src: "map_of fs src_file = Some s"
    and res: "copy_file_with_structure fresh src_file src_base dest_base False fs =
      Inr (was_copied, rel_path, fs')"
  shows "was_copied = copy_needed s (map_of fs (join dest_base (relpath src_file src_base)))"
    and "rel_path = relpath src_file src_base"
    and "\<not> was_copied \<Longrightarrow> map_of fs' (join dest_base (relpath src_file src_base)) =
          map_of fs (join dest_base (relpath src_file src_base))"
    and "was_copied \<Longrightarrow> \<not> isdir fs (join dest_base (relpath src_file src_base)) \<Longrightarrow>
          map_of fs' (join dest_base (relpath src_file src_base)) = Some s"
    and "map_of fs p \<noteq> None \<Longrightarrow> map_of fs' p \<noteq> None"
proof -
  let ?dest = "join dest_base (relpath src_file src_base)"
  obtain fs1 where mk: "makedirs fresh (dirname ?dest) fs = Inr fs1"
    using res by (auto simp: copy_file_with_structure_def Let_def split: sum.splits)
  have g: "grows fs fs1 (length (dirname ?dest))" by (rule makedirs_grows[OF mk])
  have s1: "map_of fs1 src_file = Some s" by (rule grows_keeps[OF g src])
  have d1: "map_of fs1 ?dest = map_of fs ?dest"
    by (rule grows_longer[OF g dest_longer[OF join_relpath_nonempty]])
  have sc: "should_copy fs1 src_file ?dest = Inr (copy_needed s (map_of fs ?dest))"
    using should_copy_decision[OF s1 join_relpath_nonempty] d1 by (simp add: copy_needed_def)
  have keep1: "map_of fs p \<noteq> None \<Longrightarrow> map_of fs1 p \<noteq> None" for p
    using g unfolding grows_def by metis
  show c: "was_copied = copy_needed s (map_of fs ?dest)"
    using res mk sc
    by (cases "copy_needed s (map_of fs ?dest)")
       (auto simp: copy_file_with_structure_def Let_def split: sum.splits)
  show "rel_path = relpath src_file src_base"
    using res mk sc
    by (cases "copy_needed s (map_of fs ?dest)")
       (auto simp: copy_file_with_structure_def Let_def split: sum.splits)
  show "map_of fs' ?dest = map_of fs ?dest" if "\<not> was_copied"
  proof -
    have "fs' = fs1" using res mk sc c that
      by (auto simp: copy_file_with_structure_def Let_def split: sum.splits)
    then show ?thesis using d1 by simp
  qed
  have cp: "copy2 src_file ?dest fs1 = Inr fs'" if "was_copied"
    using res mk sc c that
    by (auto simp: copy_file_with_structure_def Let_def split: sum.splits)
  show "map_of fs' ?dest = Some s" if "was_copied" and nd: "\<not> isdir fs ?dest"
  proof -
    have "\<not> isdir fs1 ?dest" using nd d1 by (simp add: isdir_def)
    then have "fs' = AList.update ?dest s fs1" using copy2_target[OF cp[OF that(1)] s1] by simp
    then show ?thesis by (simp add: update_conv')
  qed
  show "map_of fs' p \<noteq> None" if "map_of fs p \<noteq> None"
  proof (cases was_copied)
    case True
    then show ?thesis using copy2_keeps[OF cp[OF True]] keep1[OF that] by simp
  next
    case False
    then have "fs' = fs1" using res mk sc c
      by (auto simp: copy_file_with_structure_def Let_def split: sum.splits)
    then show ?thesis using keep1[OF that] by simp
  qed
qed

lemma copy_file_real_returns:
  assumes src: "map_of fs src_file = Some s" and reg: "kind s = Regular"
    and par: "isdir fs (dirname (join dest_base (relpath src_file src_base)))"
    and gpar: "path_exists fs (dirname (dirname (join dest_base (relpath src_file src_base))))"
    and nd: "\<not> isdir fs (join dest_base (relpath src_file src_base))"
  shows "copy_file_with_structure fresh src_file src_base dest_base False fs =
     Inr (copy_needed s (map_of fs (join dest_base (relpath src_file src_base))),
          relpath src_file src_base,
          if copy_needed s (map_of fs (join dest_base (relpath src_file src_base)))
          then AList.update (join dest_base (relpath src_file src_base)) s fs else fs)"
proof -
  let ?dest = "join dest_base (relpath src_file src_base)"
  have pe: "path_exists fs (dirname ?dest)" using par by (auto simp: isdir_def path_exists_def split: option.splits)
  have mk: "makedirs fresh (dirname ?dest) fs = Inr fs"
    using makedirs_parent_exists[OF gpar, of fresh] pe par by (simp add: mkdir_def)
  have sc: "should_copy fs src_file ?dest = Inr (copy_needed s (map_of fs ?dest))"
    using should_copy_decision[OF src join_relpath_nonempty] by (simp add: copy_needed_def)
  have cp: "copy2 src_file ?dest fs = Inr (AList.update ?dest s fs)"
    using src reg nd by (simp add: copy2_def)
  show ?thesis
    using mk sc cp
    by (cases "copy_needed s (map_of fs ?dest)") (simp_all add: copy_file_with_structure_def Let_def)
qed

text \<open>
  Claim C5. Let the source file exist. In dry-run mode \<open>copy_file_with_structure\<close>
  returns the flag \<open>copy_needed\<close> and leaves the file system as it is. A real run that
  returns gives the same flag; a skipped file leaves its destination untouched, and a
  copied one puts the source's node at the destination (when that is not a directory).
  When the destination's directory exists the real run does return, with the file
  system updated at the destination only. \<open>copy_needed\<close> holds when the destination is
  absent, or older, or of another size, and fails when it is not older and of the same
  size.
\<close>

theorem copy_decision:
  assumes "map_of fs src_file = Some s"
  shows "copy_file_with_structure fresh src_file src_base dest_base True fs =
      Inr (copy_needed s (map_of fs (join dest_base (relpath src_file src_base))),
           relpath src_file src_base, fs)
    \<and> (copy_file_with_structure fresh src_file src_base dest_base False fs =
          Inr (was_copied, rel_path, fs')
        \<longrightarrow> was_copied = copy_needed s (map_of fs (join dest_base (relpath src_file src_base)))
          \<and> (\<not> was_copied \<longrightarrow>
                map_of fs' (join dest_base (relpath src_file src_base)) =
                map_of fs (join dest_base (relpath src_file src_base)))
          \<and> (was_copied \<and> \<not> isdir fs (join dest_base (relpath src_file src_base)) \<longrightarrow>
                map_of fs' (join dest_base (relpath src_file src_base)) = Some s))
    \<and> (kind s = Regular
        \<and> isdir fs (dirname (join dest_base (relpath src_file src_base)))
        \<and> path_exists fs (dirname (dirname (join dest_base (relpath src_file src_base))))
        \<and> \<not> isdir fs (join dest_base (relpath src_file src_base))
        \<longrightarrow> copy_file_with_structure fresh src_file src_base dest_base False fs =
              Inr (copy_needed s (map_of fs (join dest_base (relpath src_file src_base))),
                   relpath src_file src_base,
                   if copy_needed s (map_of fs (join dest_base (relpath src_file src_base)))
                   then AList.update (join dest_base (relpath src_file src_base)) s fs else fs))
    \<and> copy_needed s None
    \<and> (st_mtime s \<le> st_mtime d \<and> st_size d = st_size s \<longrightarrow> \<not> copy_needed s (Some d))
    \<and> (st_mtime d < st_mtime s \<or> st_size d \<noteq> st_size s \<longrightarrow> copy_needed s (Some d))"
proof -
  have a: "copy_file_with_structure fresh src_file src_base dest_base True fs =
      Inr (copy_needed s (map_of fs (join dest_base (relpath src_file src_base))),
           relpath src_file src_base, fs)"
    by (rule copy_file_dry[OF assms])
  have b: "copy_file_with_structure fresh src_file src_base dest_base False fs =
          Inr (was_copied, rel_path, fs')
        \<longrightarrow> was_copied = copy_needed s (map_of fs (join dest_base (relpath src_file src_base)))
          \<and> (\<not> was_copied \<longrightarrow>
                map_of fs' (join dest_base (relpath src_file src_base)) =
                map_of fs (join dest_base (relpath src_file src_base)))
          \<and> (was_copied \<and> \<not> isdir fs (join dest_base (relpath src_file src_base)) \<longrightarrow>
                map_of fs' (join dest_base (relpath src_file src_base)) = Some s)"
    using copy_file_real(1,3,4)[OF assms] by blast
  have c: "kind s = Regular
        \<and> isdir fs (dirname (join dest_base (relpath src_file src_base)))
        \<and> path_exists fs (dirname (dirname (join dest_base (relpath src_file src_base))))
        \<and> \<not> isdir fs (join dest_base (relpath src_file src_base))
        \<longrightarrow> copy_file_with_structure fresh src_file src_base dest_base False fs =
              Inr (copy_needed s (map_of fs (join dest_base (relpath src_file src_base))),
                   relpath src_file src_base,
                   if copy_needed s (map_of fs (join dest_base (relpath src_file src_base)))
                   then AList.update (join dest_base (relpath src_file src_base)) s fs else fs)"
    using copy_file_real_returns[OF assms] by blast
  have d: "copy_needed s None"
    "st_mtime s \<le> st_mtime d \<and> st_size d = st_size s \<longrightarrow> \<not> copy_needed s (Some d)"
    "st_mtime d < st_mtime s \<or> st_size d \<noteq> st_size s \<longrightarrow> copy_needed s (Some d)"
    by (auto simp: copy_needed_def)
  show ?thesis using a b c d by blast
qed

lemmas path_eval = source_dir_def dest_dir_def relpath_def join_def dirname_def Let_def

theorem copy_decision_witness:
  "copy_file_with_structure a_dir (source_dir @ [''new.flac'']) source_dir dest_dir True music_fs =
      Inr (True, [''new.flac''], music_fs)
   \<and> copy_file_with_structure a_dir (source_dir @ [''new.flac'']) source_dir dest_dir False music_fs =
      Inr (True, [''new.flac''],
           music_fs @ [(dest_dir @ [''new.flac''],
                        \<lparr>kind = Regular, st_mtime = 300, st_size = 1023\<rparr>)])"
proof -
  let ?s = "\<lparr>kind = Regular, st_mtime = 300, st_size = 1023\<rparr>"
  have src: "map_of music_fs (source_dir @ [''new.flac'']) = Some ?s"
    by (simp add: music_fs_def source_dir_def dest_dir_def)
  have dest: "join dest_dir [''new.flac''] = dest_dir @ [''new.flac'']"
    by (simp add: join_def)
  have rel: "relpath (source_dir @ [''new.flac'']) source_dir = [''new.flac'']"
    by (simp add: path_eval)
  have absent: "map_of music_fs (dest_dir @ [''new.flac'']) = None"
    by (simp add: music_fs_def source_dir_def dest_dir_def)
  have pre: "kind ?s = Regular
      \<and> isdir music_fs (dirname (dest_dir @ [''new.flac'']))
      \<and> path_exists music_fs (dirname (dirname (dest_dir @ [''new.flac''])))
      \<and> \<not> isdir music_fs (dest_dir @ [''new.flac''])"
    by (simp add: music_fs_def source_dir_def dest_dir_def dirname_def isdir_def path_exists_def
        a_dir_def)
  have upd: "AList.update (dest_dir @ [''new.flac'']) ?s music_fs =
      music_fs @ [(dest_dir @ [''new.flac''], ?s)]"
    by (simp add: music_fs_def source_dir_def dest_dir_def)
  show ?thesis
    using copy_decision[OF src, of a_dir source_dir dest_dir] pre
    by (simp add: dest rel absent upd copy_needed_def)
qed

lemma get_all_files_exist: "p \<in> set (get_all_files fs d) \<Longrightarrow> map_of fs p \<noteq> None"
proof -
  assume "p \<in> set (get_all_files fs d)"
  then have "p \<in> fst ` set fs" by (auto simp: get_all_files_def)
  then show ?thesis by (simp add: map_of_eq_None_iff)
qed

lemma get_all_files_under: "p \<in> set (get_all_files fs d) \<Longrightarrow> is_under d p"
  by (auto simp: get_all_files_def)

lemma copy_loop_dry:
  "\<forall>src \<in> set files. map_of fs src \<noteq> None \<Longrightarrow>
   \<exists>c k out'. copy_loop fresh True files fs c0 k0 out = Inr (fs, c, k, out')
     \<and> filter is_deleted out' = filter is_deleted out"
proof (induction files arbitrary: c0 k0 out)
  case Nil
  then show ?case by simp
next
  case (Cons src files)
  obtain s where s: "map_of fs src = Some s" using Cons.prems by auto
  have rest: "\<forall>src \<in> set files. map_of fs src \<noteq> None" using Cons.prems by simp
  let ?b = "copy_needed s (map_of fs (join dest_dir (relpath src source_dir)))"
  have step: "copy_file_with_structure fresh src source_dir dest_dir True fs =
      Inr (?b, relpath src source_dir, fs)"
    by (rule copy_file_dry[OF s])
  show ?case
  proof (cases ?b)
    case True
    obtain c k out' where
      "copy_loop fresh True files fs (c0 + 1) k0 (out @ [Copied (relpath src source_dir)]) =
         Inr (fs, c, k, out')"
      "filter is_deleted out' = filter is_deleted (out @ [Copied (relpath src source_dir)])"
      using Cons.IH[OF rest] by blast
    then show ?thesis using step True by simp
  next
    case False
    obtain c k out' where
      "copy_loop fresh True files fs c0 (k0 + 1) (out @ [Skipped (relpath src source_dir)]) =
         Inr (fs, c, k, out')"
      "filter is_deleted out' = filter is_deleted (out @ [Skipped (relpath src source_dir)])"
      using Cons.IH[OF rest] by blast
    then show ?thesis using step False by simp
  qed
qed

lemma copy_loop_keeps:
  "copy_loop fresh False files fs c0 k0 out = Inr (fs', c, k, out') \<Longrightarrow>
   \<forall>src \<in> set files. map_of fs src \<noteq> None \<Longrightarrow>
   map_of fs p \<noteq> None \<Longrightarrow> map_of fs' p \<noteq> None"
proof (induction files arbitrary: fs c0 k0 out)
  case Nil
  then show ?case by simp
next
  case (Cons src files)
  obtain s where s: "map_of fs src = Some s" using Cons.prems(2) by auto
  obtain b r fs1 where step:
      "copy_file_with_structure fresh src source_dir dest_dir False fs = Inr (b, r, fs1)"
    using Cons.prems(1) by (auto split: sum.splits)
  have keep: "map_of fs q \<noteq> None \<Longrightarrow> map_of fs1 q \<noteq> None" for q
    using copy_file_real(5)[OF s step] .
  have rest: "\<forall>src \<in> set files. map_of fs1 src \<noteq> None" using Cons.prems(2) keep by simp
  have p1: "map_of fs1 p \<noteq> None" using keep[OF Cons.prems(3)] .
  show ?case
  proof (cases b)
    case True
    then have "copy_loop fresh False files fs1 (c0 + 1) k0 (out @ [Copied r]) = Inr (fs', c, k, out')"
      using Cons.prems(1) step by simp
    then show ?thesis using Cons.IH rest p1 by blast
  next
    case False
    then have "copy_loop fresh False files fs1 c0 (k0 + 1) (out @ [Skipped r]) = Inr (fs', c, k, out')"
      using Cons.prems(1) step by simp
    then show ?thesis using Cons.IH rest p1 by blast
  qed
qed

lemma remove_only: "remove q fs = Inr fs' \<Longrightarrow> p \<noteq> q \<Longrightarrow> map_of fs' p = map_of fs p"
  by (auto simp: remove_def split: option.splits if_splits)

lemma delete_loop_only:
  "delete_loop False files fs n out = Inr (fs', n', out') \<Longrightarrow>
   map_of fs p \<noteq> None \<Longrightarrow> map_of fs' p = None \<Longrightarrow> p \<in> set files"
proof (induction files arbitrary: fs n out)
  case Nil
  then show ?case by simp
next
  case (Cons q files)
  show ?case
  proof (cases "p = q")
    case True
    then show ?thesis by simp
  next
    case False
    let ?gone = "\<not> path_exists fs (join source_dir (relpath q dest_dir))"
    show ?thesis
    proof (cases ?gone)
      case True
      then obtain fs1 where r: "remove q fs = Inr fs1"
        using Cons.prems(1) by (auto simp: Let_def split: sum.splits)
      then have "delete_loop False files fs1 (n + 1) (out @ [Deleted (relpath q dest_dir)]) =
          Inr (fs', n', out')"
        using Cons.prems(1) True by (simp add: Let_def)
      moreover have "map_of fs1 p \<noteq> None" using remove_only[OF r False] Cons.prems(2) by simp
      ultimately have "p \<in> set files" using Cons.IH Cons.prems(3) by blast
      then show ?thesis by simp
    next
      case gone: False
      then have "delete_loop False files fs n out = Inr (fs', n', out')"
        using Cons.prems(1) by (simp add: Let_def)
      then have "p \<in> set files" using Cons.IH Cons.prems(2,3) by blast
      then show ?thesis by simp
    qed
  qed
qed

lemma create_destination_dry:
  "\<exists>out1. create_destination fresh True fs = Inr (fs, out1) \<and> filter is_deleted out1 = []"
  by (simp add: create_destination_def)

lemma create_destination_keeps:
  assumes "create_destination fresh dry_run fs = Inr (fs1, out1)" and "map_of fs p \<noteq> None"
  shows "map_of fs1 p \<noteq> None"
proof (cases "\<not> path_exists fs dest_dir \<and> \<not> dry_run")
  case False
  then have "fs1 = fs" using assms(1) by (auto simp: create_destination_def split: if_splits)
  then show ?thesis using assms(2) by simp
next
  case True
  then have "makedirs fresh dest_dir fs = Inr fs1"
    using assms(1) by (auto simp: create_destination_def split: sum.splits)
  then have "grows fs fs1 (length dest_dir)" by (rule makedirs_grows)
  then show ?thesis using assms(2) unfolding grows_def by metis
qed

lemma delete_extra_files_skipped:
  "\<not> (delete_extra \<and> \<not> dry_run) \<Longrightarrow> delete_extra_files dry_run delete_extra fs out = Inr (fs, out)"
  by (auto simp: delete_extra_files_def)

lemma delete_extra_files_only:
  assumes "delete_extra_files dry_run delete_extra fs out = Inr (fs', out')"
    and "map_of fs p \<noteq> None" and "map_of fs' p = None"
  shows "delete_extra \<and> \<not> dry_run \<and> is_under dest_dir p"
proof (cases "delete_extra \<and> \<not> dry_run")
  case False
  then have "fs' = fs" using assms(1) delete_extra_files_skipped[of delete_extra dry_run fs out] by auto
  then show ?thesis using assms(2,3) by simp
next
  case True
  then obtain n out5 where
      "delete_loop False (get_all_files fs dest_dir) fs 0 (out @ [Info_checking_extra]) =
         Inr (fs', n, out5)"
    using assms(1) by (auto simp: delete_extra_files_def split: sum.splits)
  then have "p \<in> set (get_all_files fs dest_dir)" using delete_loop_only assms(2,3) by blast
  then show ?thesis using True get_all_files_under by blast
qed

lemma sync_music_dry:
  "\<exists>ok out. sync_music fresh True delete_extra proceed fs = Inr (ok, fs, out)
     \<and> filter is_deleted out = []"
proof (cases "path_exists fs source_dir")
  case False
  then show ?thesis by (auto simp: sync_music_def)
next
  case True
  obtain out1 where c: "create_destination fresh True fs = Inr (fs, out1)"
      "filter is_deleted out1 = []"
    using create_destination_dry by blast
  define out2 where "out2 = out1 @ [Header True, Info_scanning]"
  define out3 where "out3 = out2 @ [Statistics (length (get_all_files fs source_dir))
     (format_size (get_directory_size fs source_dir))]"
  have d2: "filter is_deleted out2 = []" "filter is_deleted out3 = []"
    using c(2) by (simp_all add: out2_def out3_def)
  show ?thesis
  proof (cases "get_all_files fs source_dir = []")
    case True
    then have "sync_music fresh True delete_extra proceed fs = Inr (True, fs, out2 @ [Warning_no_files])"
      using \<open>path_exists fs source_dir\<close> c(1) by (simp add: sync_music_def out2_def Let_def)
    then show ?thesis using d2 by auto
  next
    case False
    have ex: "\<forall>src \<in> set (get_all_files fs source_dir). map_of fs src \<noteq> None"
      using get_all_files_exist by blast
    obtain c1 k out4 where cl:
        "copy_loop fresh True (get_all_files fs source_dir) fs 0 0 out3 = Inr (fs, c1, k, out4)"
        "filter is_deleted out4 = filter is_deleted out3"
      using copy_loop_dry[OF ex] by blast
    have "sync_music fresh True delete_extra proceed fs =
        Inr (True, fs, out4 @ [Results c1 k, Success_dry_run])"
      using \<open>path_exists fs source_dir\<close> False c(1) cl(1)
        delete_extra_files_skipped[of delete_extra True fs out4]
      by (simp add: sync_music_def out2_def out3_def Let_def)
    then show ?thesis using cl(2) d2 by auto
  qed
qed

lemma sync_music_removes:
  assumes res: "sync_music fresh dry_run delete_extra proceed fs = Inr (ok, fs', out)"
    and p: "map_of fs p \<noteq> None" and gone: "map_of fs' p = None"
  shows "delete_extra \<and> \<not> dry_run \<and> is_under dest_dir p"
proof -
  have src: "path_exists fs source_dir"
    using res p gone by (auto simp: sync_music_def split: if_splits)
  obtain fs1 out1 where f1: "create_destination fresh dry_run fs = Inr (fs1, out1)"
    using res src by (auto simp: sync_music_def split: sum.splits)
  have p1: "map_of fs1 p \<noteq> None" using create_destination_keeps[OF f1 p] .
  let ?files = "get_all_files fs1 source_dir"
  let ?out3 = "(out1 @ [Header dry_run, Info_scanning]) @
      [Statistics (length ?files) (format_size (get_directory_size fs1 source_dir))]"
  have ne: "?files \<noteq> []"
    using res src f1 p1 gone by (auto simp: sync_music_def Let_def split: if_splits)
  have pr: "\<not> (\<not> dry_run \<and> \<not> proceed)"
    using res src f1 ne p1 gone by (auto simp: sync_music_def Let_def split: if_splits)
  obtain fs2 c k out4 where cl: "copy_loop fresh dry_run ?files fs1 0 0 ?out3 = Inr (fs2, c, k, out4)"
    using res src f1 ne pr by (auto simp: sync_music_def Let_def split: sum.splits)
  obtain out5 where de: "delete_extra_files dry_run delete_extra fs2 out4 = Inr (fs', out5)"
    using res src f1 ne pr cl by (auto simp: sync_music_def Let_def split: sum.splits)
  have ex: "\<forall>src \<in> set ?files. map_of fs1 src \<noteq> None" using get_all_files_exist by blast
  have p2: "map_of fs2 p \<noteq> None"
  proof (cases dry_run)
    case True
    then have "fs2 = fs1" using copy_loop_dry[OF ex, of fresh 0 0 ?out3] cl by auto
    then show ?thesis using p1 by simp
  next
    case False
    then have "copy_loop fresh False ?files fs1 0 0 ?out3 = Inr (fs2, c, k, out4)"
      using cl by simp
    then show ?thesis by (rule copy_loop_keeps[OF _ ex p1])
  qed
  show ?thesis using delete_extra_files_only[OF de p2 gone] .
qed

lemmas sync_eval = sync_music_def create_destination_def delete_extra_files_def
  music_fs_def source_dir_def dest_dir_def path_exists_def
  get_all_files_def is_under_def a_dir_def get_directory_size_def
  copy_file_with_structure_def relpath_def join_def dirname_def should_copy_def
  getmtime_def getsize_def format_size_def units_def format_1f_def round_half_even_def
  str_nat.simps digit_char_def Let_def copy2_def remove_def isdir_def
  makedirs_parent_exists mkdir_def floor_rat_numeral

lemma music_fs_dry_run:
  "sync_music a_dir True True True music_fs =
     Inr (True, music_fs,
       [Header True, Info_scanning, Statistics 2 ''2.5 KB'', Skipped [''old.flac''],
        Copied [''new.flac''], Results 1 1, Success_dry_run])"
  by (simp add: sync_eval)

lemma music_fs_sync:
  "sync_music a_dir False True True music_fs =
     Inr (True,
       [([''Users''], a_dir),
        ([''Users'', ''chrismannina''], a_dir),
        ([''Users'', ''chrismannina'', ''Music''], a_dir),
        (source_dir, a_dir),
        (source_dir @ [''old.flac''], \<lparr>kind = Regular, st_mtime = 200, st_size = 1536\<rparr>),
        (source_dir @ [''new.flac''], \<lparr>kind = Regular, st_mtime = 300, st_size = 1023\<rparr>),
        ([''Users'', ''chrismannina'', ''Library''], a_dir),
        ([''Users'', ''chrismannina'', ''Library'', ''CloudStorage''], a_dir),
        ([''Users'', ''chrismannina'', ''Library'', ''CloudStorage'', ''SynologyDrive-Sync''], a_dir),
        (dest_dir, a_dir),
        (dest_dir @ [''old.flac''], \<lparr>kind = Regular, st_mtime = 200, st_size = 1536\<rparr>),
        (dest_dir @ [''new.flac''], \<lparr>kind = Regular, st_mtime = 300, st_size = 1023\<rparr>)],
       [Header False, Info_scanning, Statistics 2 ''2.5 KB'', Skipped [''old.flac''],
        Copied [''new.flac''], Info_checking_extra, Deleted [''extra.flac''], Deleted_total 1,
        Results 1 1, Success_sync])"
  by (simp add: sync_eval)

text \<open>
  Claim C6, as the code has it. A dry run always returns, leaves the file system exactly
  as it was (no write, copy, directory or delete) and reports no deletion. In any run, a
  path that exists before and not after lies under the destination directory, and the
  run had \<open>delete_extra\<close> on and \<open>dry_run\<close> off. For each source file the dry run
  takes the decision that the real run takes on the same file system.
\<close>

theorem dry_run_frame:
  "(\<exists>ok out. sync_music fresh True delete_extra proceed fs = Inr (ok, fs, out)
       \<and> filter is_deleted out = [])
   \<and> (sync_music fresh dry_run delete_extra proceed fs = Inr (ok', fs', out')
        \<and> map_of fs p \<noteq> None \<and> map_of fs' p = None
      \<longrightarrow> delete_extra \<and> \<not> dry_run \<and> is_under dest_dir p)
   \<and> (map_of fs src_file = Some s
        \<and> copy_file_with_structure fresh src_file source_dir dest_dir False fs =
            Inr (was_copied, rel_path, fs1)
      \<longrightarrow> copy_file_with_structure fresh src_file source_dir dest_dir True fs =
            Inr (was_copied, rel_path, fs))"
proof -
  have a: "\<exists>ok out. sync_music fresh True delete_extra proceed fs = Inr (ok, fs, out)
       \<and> filter is_deleted out = []"
    by (rule sync_music_dry)
  have b: "sync_music fresh dry_run delete_extra proceed fs = Inr (ok', fs', out')
        \<and> map_of fs p \<noteq> None \<and> map_of fs' p = None
      \<longrightarrow> delete_extra \<and> \<not> dry_run \<and> is_under dest_dir p"
    using sync_music_removes by blast
  have c: "map_of fs src_file = Some s
        \<and> copy_file_with_structure fresh src_file source_dir dest_dir False fs =
            Inr (was_copied, rel_path, fs1)
      \<longrightarrow> copy_file_with_structure fresh src_file source_dir dest_dir True fs =
            Inr (was_copied, rel_path, fs)"
  proof
    assume h: "map_of fs src_file = Some s
        \<and> copy_file_with_structure fresh src_file source_dir dest_dir False fs =
            Inr (was_copied, rel_path, fs1)"
    then have src: "map_of fs src_file = Some s"
      and res: "copy_file_with_structure fresh src_file source_dir dest_dir False fs =
            Inr (was_copied, rel_path, fs1)"
      by simp_all
    show "copy_file_with_structure fresh src_file source_dir dest_dir True fs =
            Inr (was_copied, rel_path, fs)"
      using copy_file_dry[OF src, of fresh source_dir dest_dir]
        copy_file_real(1)[OF src res] copy_file_real(2)[OF src res]
      by simp
  qed
  show ?thesis using a b c by blast
qed

theorem dry_run_frame_witness:
  "(\<exists>ok out. sync_music a_dir True True True music_fs = Inr (ok, music_fs, out)
       \<and> filter is_deleted out = [])
   \<and> is_under dest_dir (dest_dir @ [''extra.flac''])"
proof -
  let ?p = "dest_dir @ [''extra.flac'']"
  obtain fs' out' where r: "sync_music a_dir False True True music_fs = Inr (True, fs', out')"
      "map_of fs' ?p = None"
    using music_fs_sync by (simp add: source_dir_def dest_dir_def)
  have p: "map_of music_fs ?p \<noteq> None"
    by (simp add: music_fs_def source_dir_def dest_dir_def)
  show ?thesis
    using dry_run_frame[of a_dir True True music_fs False True fs' out' ?p] r p by blast
qed

text \<open>
  The claim as written fails: a dry run does not perform the scan for extra files. With
  \<open>--delete\<close>, the real run reports \<open>extra.flac\<close> as deleted; the dry run with
  \<open>--delete\<close> reports nothing about it.
\<close>

theorem dry_run_counterexample:
  "report (sync_music a_dir True True True music_fs) =
     [Header True, Info_scanning, Statistics 2 ''2.5 KB'', Skipped [''old.flac''],
      Copied [''new.flac''], Results 1 1, Success_dry_run]
   \<and> report (sync_music a_dir False True True music_fs) =
     [Header False, Info_scanning, Statistics 2 ''2.5 KB'', Skipped [''old.flac''],
      Copied [''new.flac''], Info_checking_extra, Deleted [''extra.flac''], Deleted_total 1,
      Results 1 1, Success_sync]"
  by (simp add: music_fs_dry_run music_fs_sync report_def)

section \<open>Properties of the login probe\<close>

lemmas login_eval = run_login_test_def load_credentials_from_settings_def settings_with_def
  get_def credentials_of_def has_placeholder_def lookup_credential_def accepting_api_def
  empty_fields_def placeholder_fields_def Let_def

lemma load_credentials_no_section:
  "qobuz_section cfg = None \<Longrightarrow> fst (load_credentials_from_settings cfg) = None"
  by (auto simp: qobuz_section_def load_credentials_from_settings_def credentials_of_def get_def
      split: settings_file.splits option.splits json.splits if_splits)

lemma load_credentials_section:
  assumes "qobuz_section cfg = Some kvs"
  shows "load_credentials_from_settings cfg =
     (if empty_fields (field kvs ''app_id'') (field kvs ''app_secret'')
           (field kvs ''username'') (field kvs ''password'') \<noteq> [] then
        (None, [Error_missing_credentials
           (empty_fields (field kvs ''app_id'') (field kvs ''app_secret'')
              (field kvs ''username'') (field kvs ''password''))])
      else if placeholder_fields (field kvs ''app_id'') (field kvs ''app_secret'')
           (field kvs ''username'') (field kvs ''password'') \<noteq> [] then
        (None, [Error_placeholder_credentials])
      else (Some [(''app_id'', field kvs ''app_id''), (''app_secret'', field kvs ''app_secret''),
                  (''email'', field kvs ''username''), (''password'', field kvs ''password'')], []))"
proof -
  obtain settings modules where f: "cfg = Parsed settings"
      "get settings ''modules'' (JObject []) = Some modules"
      "get modules ''qobuz'' JNull = Some (JObject kvs)" "kvs \<noteq> []"
    using assms
    by (auto simp: qobuz_section_def split: settings_file.splits option.splits json.splits if_splits)
  have c: "credentials_of (JObject kvs) =
      Some [(''app_id'', field kvs ''app_id''), (''app_secret'', field kvs ''app_secret''),
            (''email'', field kvs ''username''), (''password'', field kvs ''password'')]"
    by (simp add: credentials_of_def get_def field_def)
  show ?thesis
    unfolding load_credentials_from_settings_def f(1)
    using f(2,3,4) c
    by (simp add: has_placeholder_def empty_fields_def placeholder_fields_def)
qed

text \<open>
  Claim C9, as the code has it. Without a usable \<open>qobuz\<close> section no authentication call
  is made. With one: if some of the four fields are empty, the probe stops before any
  call and its message names exactly the empty fields (\<open>app_id\<close>, \<open>app_secret\<close>,
  \<open>email\<close>, \<open>password\<close>); if none is empty and some field holds its placeholder, it
  stops before any call with a message that names no field; otherwise it makes exactly
  one authentication call, provided the client can be constructed, and none if not.
\<close>

theorem login_probe_credentials:
  "(qobuz_section cfg = None \<longrightarrow> snd (run_login_test api cfg) = [])
   \<and> (qobuz_section cfg = Some kvs
        \<and> app_id = field kvs ''app_id'' \<and> app_secret = field kvs ''app_secret''
        \<and> username = field kvs ''username'' \<and> password = field kvs ''password'' \<longrightarrow>
      (empty_fields app_id app_secret username password \<noteq> [] \<longrightarrow>
         run_login_test api cfg =
           ([Error_missing_credentials (empty_fields app_id app_secret username password)], []))
      \<and> (empty_fields app_id app_secret username password = []
           \<and> placeholder_fields app_id app_secret username password \<noteq> [] \<longrightarrow>
         run_login_test api cfg = ([Error_placeholder_credentials], []))
      \<and> (empty_fields app_id app_secret username password = []
           \<and> placeholder_fields app_id app_secret username password = [] \<longrightarrow>
         snd (run_login_test api cfg) =
           (case new_client api app_id app_secret of
              Returns c \<Rightarrow> [Login_call username password]
            | Raises_qobuz_error m \<Rightarrow> []
            | Raises_other m \<Rightarrow> [])))"
proof -
  have n: "qobuz_section cfg = None \<longrightarrow> snd (run_login_test api cfg) = []"
  proof
    assume "qobuz_section cfg = None"
    then have "fst (load_credentials_from_settings cfg) = None"
      by (rule load_credentials_no_section)
    then show "snd (run_login_test api cfg) = []"
      by (cases "load_credentials_from_settings cfg") (simp add: run_login_test_def)
  qed
  have s: "qobuz_section cfg = Some kvs
        \<and> app_id = field kvs ''app_id'' \<and> app_secret = field kvs ''app_secret''
        \<and> username = field kvs ''username'' \<and> password = field kvs ''password'' \<longrightarrow>
      (empty_fields app_id app_secret username password \<noteq> [] \<longrightarrow>
         run_login_test api cfg =
           ([Error_missing_credentials (empty_fields app_id app_secret username password)], []))
      \<and> (empty_fields app_id app_secret username password = []
           \<and> placeholder_fields app_id app_secret username password \<noteq> [] \<longrightarrow>
         run_login_test api cfg = ([Error_placeholder_credentials], []))
      \<and> (empty_fields app_id app_secret username password = []
           \<and> placeholder_fields app_id app_secret username password = [] \<longrightarrow>
         snd (run_login_test api cfg) =
           (case new_client api app_id app_secret of
              Returns c \<Rightarrow> [Login_call username password]
            | Raises_qobuz_error m \<Rightarrow> []
            | Raises_other m \<Rightarrow> []))"
  proof
    assume h: "qobuz_section cfg = Some kvs
        \<and> app_id = field kvs ''app_id'' \<and> app_secret = field kvs ''app_secret''
        \<and> username = field kvs ''username'' \<and> password = field kvs ''password''"
    then have l: "load_credentials_from_settings cfg =
     (if empty_fields app_id app_secret username password \<noteq> [] then
        (None, [Error_missing_credentials (empty_fields app_id app_secret username password)])
      else if placeholder_fields app_id app_secret username password \<noteq> [] then
        (None, [Error_placeholder_credentials])
      else (Some [(''app_id'', app_id), (''app_secret'', app_secret),
                  (''email'', username), (''password'', password)], []))"
      using load_credentials_section[of cfg kvs] by simp
    have a: "empty_fields app_id app_secret username password \<noteq> [] \<longrightarrow>
         run_login_test api cfg =
           ([Error_missing_credentials (empty_fields app_id app_secret username password)], [])"
      by (simp add: run_login_test_def l)
    have b: "empty_fields app_id app_secret username password = []
           \<and> placeholder_fields app_id app_secret username password \<noteq> [] \<longrightarrow>
         run_login_test api cfg = ([Error_placeholder_credentials], [])"
      by (simp add: run_login_test_def l)
    have c: "empty_fields app_id app_secret username password = []
           \<and> placeholder_fields app_id app_secret username password = [] \<longrightarrow>
         snd (run_login_test api cfg) =
           (case new_client api app_id app_secret of
              Returns c \<Rightarrow> [Login_call username password]
            | Raises_qobuz_error m \<Rightarrow> []
            | Raises_other m \<Rightarrow> [])"
      by (cases "new_client api app_id app_secret";
          cases "login api app_id app_secret username password")
         (simp_all add: run_login_test_def l lookup_credential_def Let_def)
    show "(empty_fields app_id app_secret username password \<noteq> [] \<longrightarrow>
         run_login_test api cfg =
           ([Error_missing_credentials (empty_fields app_id app_secret username password)], []))
      \<and> (empty_fields app_id app_secret username password = []
           \<and> placeholder_fields app_id app_secret username password \<noteq> [] \<longrightarrow>
         run_login_test api cfg = ([Error_placeholder_credentials], []))
      \<and> (empty_fields app_id app_secret username password = []
           \<and> placeholder_fields app_id app_secret username password = [] \<longrightarrow>
         snd (run_login_test api cfg) =
           (case new_client api app_id app_secret of
              Returns c \<Rightarrow> [Login_call username password]
            | Raises_qobuz_error m \<Rightarrow> []
            | Raises_other m \<Rightarrow> []))"
      using a b c by blast
  qed
  show ?thesis using n s by blast
qed

theorem login_probe_credentials_witness:
  "run_login_test accepting_api
      (settings_with (JStr '''') (JStr ''secret'') JNull (JStr ''pw'')) =
     ([Error_missing_credentials [''app_id'', ''email'']], [])
   \<and> snd (run_login_test accepting_api
      (settings_with (JNum 123) (JStr ''secret'') (JStr ''me@example.org'') (JStr ''pw''))) =
     [Login_call (JStr ''me@example.org'') (JStr ''pw'')]"
proof -
  let ?k1 = "[(''app_id'', JStr ''''), (''app_secret'', JStr ''secret''),
              (''username'', JNull), (''password'', JStr ''pw'')]"
  let ?k2 = "[(''app_id'', JNum 123), (''app_secret'', JStr ''secret''),
              (''username'', JStr ''me@example.org''), (''password'', JStr ''pw'')]"
  have s1: "qobuz_section (settings_with (JStr '''') (JStr ''secret'') JNull (JStr ''pw'')) = Some ?k1"
    and s2: "qobuz_section (settings_with (JNum 123) (JStr ''secret'') (JStr ''me@example.org'')
        (JStr ''pw'')) = Some ?k2"
    by (simp_all add: qobuz_section_def settings_with_def get_def)
  have f1: "JStr '''' = field ?k1 ''app_id''" "JStr ''secret'' = field ?k1 ''app_secret''"
    "JNull = field ?k1 ''username''" "JStr ''pw'' = field ?k1 ''password''"
    by (simp_all add: field_def)
  have f2: "JNum 123 = field ?k2 ''app_id''" "JStr ''secret'' = field ?k2 ''app_secret''"
    "JStr ''me@example.org'' = field ?k2 ''username''" "JStr ''pw'' = field ?k2 ''password''"
    by (simp_all add: field_def)
  have e1: "empty_fields (JStr '''') (JStr ''secret'') JNull (JStr ''pw'') = [''app_id'', ''email'']"
    by (simp add: empty_fields_def)
  have e2: "empty_fields (JNum 123) (JStr ''secret'') (JStr ''me@example.org'') (JStr ''pw'') = []"
    "placeholder_fields (JNum 123) (JStr ''secret'') (JStr ''me@example.org'') (JStr ''pw'') = []"
    "new_client accepting_api (JNum 123) (JStr ''secret'') = Returns ''client''"
    by (simp_all add: empty_fields_def placeholder_fields_def accepting_api_def)
  have r1: "run_login_test accepting_api
      (settings_with (JStr '''') (JStr ''secret'') JNull (JStr ''pw'')) =
     ([Error_missing_credentials [''app_id'', ''email'']], [])"
    using login_probe_credentials[where cfg = "settings_with (JStr '''') (JStr ''secret'') JNull (JStr ''pw'')"
        and kvs = ?k1 and app_id = "JStr ''''" and app_secret = "JStr ''secret''"
        and username = JNull and password = "JStr ''pw''" and api = accepting_api]
      s1 f1 e1 by simp
  have r2: "snd (run_login_test accepting_api
      (settings_with (JNum 123) (JStr ''secret'') (JStr ''me@example.org'') (JStr ''pw''))) =
     [Login_call (JStr ''me@example.org'') (JStr ''pw'')]"
    using login_probe_credentials[where cfg = "settings_with (JNum 123) (JStr ''secret'')
          (JStr ''me@example.org'') (JStr ''pw'')"
        and kvs = ?k2 and app_id = "JNum 123" and app_secret = "JStr ''secret''"
        and username = "JStr ''me@example.org''" and password = "JStr ''pw''"
        and api = accepting_api]
      s2 f2 e2 by simp
  show ?thesis using r1 r2 by simp
qed

text \<open>
  The claim as written fails for placeholders: the message for a placeholder names no
  field, and when one field is empty and another holds its placeholder, only the empty
  one is named.
\<close>

theorem login_probe_counterexample:
  "run_login_test accepting_api
      (settings_with (JStr ''YOUR_APP_ID'') (JStr ''secret'') (JStr ''me@example.org'') (JStr ''pw'')) =
     ([Error_placeholder_credentials], [])
   \<and> run_login_test accepting_api
      (settings_with (JStr '''') (JStr ''YOUR_APP_SECRET'') (JStr ''me@example.org'') (JStr ''pw'')) =
     ([Error_missing_credentials [''app_id'']], [])"
  by (simp add: login_eval)

end
